theory Spec2Isabelle
  imports Complex_Main "HOL-Library.Word" "HOL-Library.Multiset"
begin

unbundle bit_operations_syntax

section \<open>Pin categories, their names and colours\<close>

text \<open>
  \<^verbatim>\<open>enum class EDependencyPinCategory\<close> of \<^verbatim>\<open>FRefExplorerEditorModule_PRIVATE\<close>: a flag
  enumeration over \<^verbatim>\<open>int\<close>, combined with \<^verbatim>\<open>|\<close> and tested with \<^verbatim>\<open>&\<close>.
\<close>

type_synonym EDependencyPinCategory = "32 word"

definition LinkEndPassive :: EDependencyPinCategory where
  "LinkEndPassive = 0"

definition LinkEndActive :: EDependencyPinCategory where
  "LinkEndActive = 1"

definition LinkEndMask :: EDependencyPinCategory where
  "LinkEndMask = LinkEndActive"

definition LinkTypeNone :: EDependencyPinCategory where
  "LinkTypeNone = 0"

definition LinkTypeUsedInGame :: EDependencyPinCategory where
  "LinkTypeUsedInGame = 2"

definition LinkTypeHard :: EDependencyPinCategory where
  "LinkTypeHard = 4"

definition LinkTypeMask :: EDependencyPinCategory where
  "LinkTypeMask = LinkTypeHard OR LinkTypeUsedInGame"

text \<open>
  An \<^verbatim>\<open>FName\<close> is either \<^verbatim>\<open>NAME_None\<close> or a name with a text. The engine compares names
  without regard to case; texts are taken in one fixed spelling here.
\<close>

datatype FName = NAME_None | Name string

definition NamePassive :: FName where
  "NamePassive = Name ''Passive''"

definition NameHardUsedInGame :: FName where
  "NameHardUsedInGame = Name ''Hard''"

definition NameHardEditorOnly :: FName where
  "NameHardEditorOnly = Name ''HardEditorOnly''"

definition NameSoftUsedInGame :: FName where
  "NameSoftUsedInGame = Name ''Soft''"

definition NameSoftEditorOnly :: FName where
  "NameSoftEditorOnly = Name ''SoftEditorOnly''"

text \<open>
  The five colour constants of \<^verbatim>\<open>namespace DependencyPinCategory\<close>. Their channel values are
  floating-point numbers made by the engine; a colour is identified here by the constant it is.
\<close>

datatype FLinearColor =
    ColorPassive
  | ColorHardUsedInGame
  | ColorHardEditorOnly
  | ColorSoftUsedInGame
  | ColorSoftEditorOnly

definition ParseDependencyPinCategory :: "FName \<Rightarrow> EDependencyPinCategory" where
  "ParseDependencyPinCategory PinCategory =
     (if PinCategory = NameHardUsedInGame then LinkEndActive OR LinkTypeHard OR LinkTypeUsedInGame
      else if PinCategory = NameHardEditorOnly then LinkEndActive OR LinkTypeHard
      else if PinCategory = NameSoftUsedInGame then LinkEndActive OR LinkTypeUsedInGame
      else if PinCategory = NameSoftEditorOnly then LinkEndActive
      else LinkEndPassive)"

definition GetName :: "EDependencyPinCategory \<Rightarrow> FName" where
  "GetName Category =
     (if Category AND LinkEndMask = LinkEndPassive then NamePassive
      else if Category AND LinkTypeMask = (LinkTypeHard OR LinkTypeUsedInGame) then NameHardUsedInGame
      else if Category AND LinkTypeMask = LinkTypeHard then NameHardEditorOnly
      else if Category AND LinkTypeMask = LinkTypeUsedInGame then NameSoftUsedInGame
      else NameSoftEditorOnly)"

definition GetColor :: "EDependencyPinCategory \<Rightarrow> FLinearColor" where
  "GetColor Category =
     (if Category AND LinkEndMask = LinkEndPassive then ColorPassive
      else if Category AND LinkTypeMask = (LinkTypeHard OR LinkTypeUsedInGame) then ColorHardUsedInGame
      else if Category AND LinkTypeMask = LinkTypeHard then ColorHardEditorOnly
      else if Category AND LinkTypeMask = LinkTypeUsedInGame then ColorSoftUsedInGame
      else ColorSoftEditorOnly)"

text \<open>
  \<^verbatim>\<open>FRefExplorerConnectionDrawingPolicy::DetermineWiringStyle\<close>: the colour of the wire between
  an output pin and an input pin, from the category names stored in the two pins.
\<close>

definition DetermineWiringStyle :: "FName \<Rightarrow> FName \<Rightarrow> FLinearColor" where
  "DetermineWiringStyle OutputPinCategory InputPinCategory =
     (let OutputCategory = ParseDependencyPinCategory OutputPinCategory;
          InputCategory = ParseDependencyPinCategory InputPinCategory;
          Category = (if OutputCategory AND LinkEndActive \<noteq> 0 then OutputCategory else InputCategory)
      in GetColor Category)"

section \<open>Asset identifiers and dependency records\<close>

text \<open>
  \<^verbatim>\<open>FAssetIdentifier\<close>: the key of an asset or of a searchable value. Two identifiers are equal
  when all their names are.
\<close>

datatype FAssetIdentifier =
  FAssetIdentifier (PackageName: FName) (ObjectName: FName) (ValueName: FName)

definition IsValue :: "FAssetIdentifier \<Rightarrow> bool" where
  "IsValue AssetIdentifier = (ValueName AssetIdentifier \<noteq> NAME_None)"

text \<open>
  \<^verbatim>\<open>UE::AssetRegistry::EDependencyCategory\<close>: every dependency record carries one of the three
  categories that \<^verbatim>\<open>CategoryOrder\<close> names; its \<^verbatim>\<open>default\<close> branch (\<^verbatim>\<open>check(false)\<close>) is for
  no record of the asset registry.
\<close>

datatype EDependencyCategory = Package | Manage | SearchableName

text \<open>
  \<^verbatim>\<open>UE::AssetRegistry::EDependencyProperty\<close> is a set of one-bit flags. The properties of a
  record are the set of flags present in it: \<^verbatim>\<open>(Properties & F) != None\<close> is membership of
  \<open>F\<close>, and \<^verbatim>\<open>A.Properties != B.Properties\<close> is inequality of the two sets.
\<close>

datatype EDependencyProperty = Hard | Game | Build | Direct | CookRule

record FAssetDependency =
  AssetId :: FAssetIdentifier
  Category :: EDependencyCategory
  Properties :: "EDependencyProperty set"

section \<open>The order of the raw records\<close>

definition CategoryOrder :: "EDependencyCategory \<Rightarrow> nat" where
  "CategoryOrder InCategory =
     (case InCategory of Package \<Rightarrow> 0 | Manage \<Rightarrow> 1 | SearchableName \<Rightarrow> 2)"

definition IsHard :: "EDependencyProperty set \<Rightarrow> bool" where
  "IsHard Props = (Hard \<in> Props \<or> Direct \<in> Props)"

text \<open>
  The predicate given to \<^verbatim>\<open>Algo::Sort\<close> in \<^verbatim>\<open>GetSortedLinks\<close>. \<^verbatim>\<open>FName::LexicalLess\<close> belongs
  to the engine and is the parameter \<open>LexicalLess\<close>.
\<close>

definition LinkLess ::
  "(FName \<Rightarrow> FName \<Rightarrow> bool) \<Rightarrow> FAssetDependency \<Rightarrow> FAssetDependency \<Rightarrow> bool" where
  "LinkLess LexicalLess A B =
     (if Category A \<noteq> Category B then CategoryOrder (Category A) < CategoryOrder (Category B)
      else if Properties A \<noteq> Properties B \<and> IsHard (Properties A) \<noteq> IsHard (Properties B)
      then IsHard (Properties A)
      else LexicalLess (PackageName (AssetId A)) (PackageName (AssetId B)))"

text \<open>
  Modelled from the spec: \<^verbatim>\<open>Algo::Sort\<close> is the engine's sort and is not part of the plugin.
  It is given as the sort that inserts every record before the first record that the
  predicate places after it; how the engine orders records that the predicate does not
  separate is not fixed by the plugin.
\<close>

fun SortInsert :: "('a \<Rightarrow> 'a \<Rightarrow> bool) \<Rightarrow> 'a \<Rightarrow> 'a list \<Rightarrow> 'a list" where
  "SortInsert Pred x [] = [x]"
| "SortInsert Pred x (y # ys) = (if Pred y x then y # SortInsert Pred x ys else x # y # ys)"

fun Algo_Sort :: "('a \<Rightarrow> 'a \<Rightarrow> bool) \<Rightarrow> 'a list \<Rightarrow> 'a list" where
  "Algo_Sort Pred [] = []"
| "Algo_Sort Pred (x # xs) = SortInsert Pred x (Algo_Sort Pred xs)"

text \<open>A list is in the order of a predicate when no record is placed before an earlier one.\<close>

fun InOrder :: "('a \<Rightarrow> 'a \<Rightarrow> bool) \<Rightarrow> 'a list \<Rightarrow> bool" where
  "InOrder Pred [] = True"
| "InOrder Pred (x # xs) = ((\<forall>y \<in> set xs. \<not> Pred y x) \<and> InOrder Pred xs)"

text \<open>
  What the sort asks of its predicate: no two records are placed before each other, and a
  record placed before another one is placed before every third record or that record before
  the other one (the records the predicate does not separate form classes).
\<close>

definition StrictWeakOrder :: "('a \<Rightarrow> 'a \<Rightarrow> bool) \<Rightarrow> bool" where
  "StrictWeakOrder P = ((\<forall>a b. P a b \<longrightarrow> \<not> P b a) \<and> (\<forall>a b c. P a c \<longrightarrow> P a b \<or> P b c))"

text \<open>
  The order of two targets that follows from the order of their records: one record of the
  target \<open>a\<close> has no record of the target \<open>b\<close> placed before it.
\<close>

definition PlacedBefore ::
  "(FName \<Rightarrow> FName \<Rightarrow> bool) \<Rightarrow> FAssetDependency list \<Rightarrow> FAssetIdentifier \<Rightarrow> FAssetIdentifier \<Rightarrow> bool" where
  "PlacedBefore Less Ls a b =
     (\<exists>A \<in> set Ls. AssetId A = a \<and> (\<forall>B \<in> set Ls. AssetId B = b \<longrightarrow> \<not> LinkLess Less B A))"

section \<open>The classifier's category map\<close>

text \<open>
  A \<^verbatim>\<open>TMap\<close> keeps its pairs in the order of insertion; it is a list of pairs with one pair
  for a key. \<^verbatim>\<open>FindOrAdd\<close> adds a pair at the end when the key is new.
\<close>

type_synonym ('k, 'v) TMap = "('k \<times> 'v) list"

definition TMap_Contains :: "('k, 'v) TMap \<Rightarrow> 'k \<Rightarrow> bool" where
  "TMap_Contains M k = (k \<in> fst ` set M)"

definition TMap_FindOrAdd :: "('k, 'v) TMap \<Rightarrow> 'k \<Rightarrow> 'v \<Rightarrow> ('k, 'v) TMap" where
  "TMap_FindOrAdd M k v = (if TMap_Contains M k then M else M @ [(k, v)])"

text \<open>Writing through the reference that \<^verbatim>\<open>FindOrAdd\<close> or \<^verbatim>\<open>operator[]\<close> returns.\<close>

definition TMap_Modify :: "('k, 'v) TMap \<Rightarrow> 'k \<Rightarrow> ('v \<Rightarrow> 'v) \<Rightarrow> ('k, 'v) TMap" where
  "TMap_Modify M k f = map (\<lambda>(k', v). if k' = k then (k', f v) else (k', v)) M"

definition TMap_Find :: "('k, 'v) TMap \<Rightarrow> 'k \<Rightarrow> 'v option" where
  "TMap_Find M k = map_of M k"

text \<open>The three \<^verbatim>\<open>Category |= ...\<close> statements of the loop over the sorted records.\<close>

definition LinkBits :: "FAssetDependency \<Rightarrow> EDependencyPinCategory \<Rightarrow> EDependencyPinCategory" where
  "LinkBits LinkToAsset Cat =
     (let bIsHard = IsHard (Properties LinkToAsset);
          bIsUsedInGame = (Category LinkToAsset \<noteq> Package \<or> Game \<in> Properties LinkToAsset);
          C1 = Cat OR LinkEndActive;
          C2 = C1 OR (if bIsHard then LinkTypeHard else LinkTypeNone);
          C3 = C2 OR (if bIsUsedInGame then LinkTypeUsedInGame else LinkTypeNone)
      in C3)"

fun AccumulateLinks ::
  "FAssetDependency list \<Rightarrow> (FAssetIdentifier, EDependencyPinCategory) TMap
     \<Rightarrow> (FAssetIdentifier, EDependencyPinCategory) TMap" where
  "AccumulateLinks [] OutLinks = OutLinks"
| "AccumulateLinks (LinkToAsset # Rest) OutLinks =
     AccumulateLinks Rest
       (TMap_Modify (TMap_FindOrAdd OutLinks (AssetId LinkToAsset) LinkEndActive)
          (AssetId LinkToAsset) (LinkBits LinkToAsset))"

text \<open>
  The category of a target for which a hard record was seen (\<open>h\<close>) and for which a record
  used in the game was seen (\<open>g\<close>): the value the loop leaves in the map, in closed form.
\<close>

definition PinCat :: "bool \<Rightarrow> bool \<Rightarrow> EDependencyPinCategory" where
  "PinCat h g =
     LinkEndActive OR (if h then LinkTypeHard else LinkTypeNone)
       OR (if g then LinkTypeUsedInGame else LinkTypeNone)"

definition UsedInGame :: "FAssetDependency \<Rightarrow> bool" where
  "UsedInGame L = (Category L \<noteq> Package \<or> Game \<in> Properties L)"

section \<open>The editor's services\<close>

text \<open>
  What the plugin asks of the engine is a parameter of the model: the asset registry's
  queries and the order of names. \<^verbatim>\<open>GetReferencers\<close> takes the categories of records that are
  asked for; the flags of the query are always \<^verbatim>\<open>EDependencyQuery::NoRequirements\<close>, which
  asks nothing of the properties of a record, and are left out.
\<close>

record FAssetPackageData =
  DiskSize :: int

datatype FAssetData =
  FAssetData (IsValid: bool) (IsRedirector: bool) (AssetClassPath: FName)

record Engine =
  IsLoadingAssets :: bool
  GetReferencers :: "FAssetIdentifier \<Rightarrow> EDependencyCategory set \<Rightarrow> FAssetDependency list"
  GetReferencerIds :: "FName \<Rightarrow> FAssetIdentifier list"
  GetAssetPackageDataCopy :: "FName \<Rightarrow> FAssetPackageData option"
  GetAssetsByPackageName :: "FName \<Rightarrow> FAssetData list"
  GetAssetForPackages :: "FName list \<Rightarrow> (FName, FAssetData) TMap"
  LexicalLess :: "FName \<Rightarrow> FName \<Rightarrow> bool"

section \<open>GetSortedLinks\<close>

text \<open>\<^verbatim>\<open>EDependencyCategory Categories = EDependencyCategory::Package | EDependencyCategory::Manage\<close>:
  the categories \<^verbatim>\<open>GetSortedLinks\<close> asks the registry for.\<close>

definition Categories :: "EDependencyCategory set" where
  "Categories = {Package, Manage}"

definition ClassifyLinks ::
  "(FName \<Rightarrow> FName \<Rightarrow> bool) \<Rightarrow> FAssetDependency list
     \<Rightarrow> (FAssetIdentifier, EDependencyPinCategory) TMap" where
  "ClassifyLinks Less LinksToAsset = AccumulateLinks (Algo_Sort (LinkLess Less) LinksToAsset) []"

text \<open>The test \<^verbatim>\<open>!assetPackageData.GetPtrOrNull() || ...->DiskSize < 0\<close>.\<close>

definition IsBadPackage :: "Engine \<Rightarrow> FName \<Rightarrow> bool" where
  "IsBadPackage E Pkg =
     (case GetAssetPackageDataCopy E Pkg of None \<Rightarrow> True | Some D \<Rightarrow> DiskSize D < 0)"

definition TArray_RemoveAt :: "'a list \<Rightarrow> nat \<Rightarrow> 'a list" where
  "TArray_RemoveAt A Index = take Index A @ drop (Suc Index) A"

definition TArray_Insert :: "'a list \<Rightarrow> 'a list \<Rightarrow> nat \<Rightarrow> 'a list" where
  "TArray_Insert A Items Index = take Index A @ Items @ drop Index A"

text \<open>
  The body of the branch for a bad package: the identifier is removed, and when one of the
  package's assets is a redirector the referencers of the package are put in its place.
\<close>

definition ReplaceBadPackage :: "Engine \<Rightarrow> FAssetIdentifier list \<Rightarrow> nat \<Rightarrow> FAssetIdentifier list" where
  "ReplaceBadPackage E ReferenceIds Index =
     (let Pkg = PackageName (ReferenceIds ! Index);
          Removed = TArray_RemoveAt ReferenceIds Index
      in if \<exists>Asset \<in> set (GetAssetsByPackageName E Pkg). IsRedirector Asset
         then TArray_Insert Removed (GetReferencerIds E Pkg) Index
         else Removed)"

text \<open>
  The loop \<^verbatim>\<open>for (int32 Index = 0; Index < ReferenceIds.Num(); Index++)\<close>. After a bad package
  the source decrements \<^verbatim>\<open>Index\<close> and the loop increments it: the same index is examined
  again. The loop need not end, so it is a partial function: \<open>None\<close> is a loop that runs
  forever.
\<close>

partial_function (option) FilterLoop ::
  "Engine \<Rightarrow> FAssetIdentifier list \<Rightarrow> nat \<Rightarrow> FAssetIdentifier list option" where
  "FilterLoop E ReferenceIds Index =
     (if Index < length ReferenceIds then
        (if PackageName (ReferenceIds ! Index) \<noteq> NAME_None
            \<and> IsBadPackage E (PackageName (ReferenceIds ! Index))
         then FilterLoop E (ReplaceBadPackage E ReferenceIds Index) Index
         else FilterLoop E ReferenceIds (Suc Index))
      else Some ReferenceIds)"

definition GetSortedLinks ::
  "Engine \<Rightarrow> FAssetIdentifier \<Rightarrow> (FAssetIdentifier, EDependencyPinCategory) TMap option" where
  "GetSortedLinks E GraphRootIdentifier =
     (let OutLinks = ClassifyLinks (LexicalLess E) (GetReferencers E GraphRootIdentifier Categories)
      in case FilterLoop E (map fst OutLinks) 0 of
           None \<Rightarrow> None
         | Some ReferenceIds \<Rightarrow> Some (filter (\<lambda>(Key, Cat). Key \<in> set ReferenceIds) OutLinks))"

text \<open>An identifier the filter keeps: it names no package, or its package data can be
  read and has a size that is not negative.\<close>

definition KeptId :: "Engine \<Rightarrow> FAssetIdentifier \<Rightarrow> bool" where
  "KeptId E AssetIdentifier =
     (PackageName AssetIdentifier = NAME_None \<or> \<not> IsBadPackage E (PackageName AssetIdentifier))"

definition RedirectorPackage :: "Engine \<Rightarrow> FName \<Rightarrow> bool" where
  "RedirectorPackage E Pkg = (\<exists>Asset \<in> set (GetAssetsByPackageName E Pkg). IsRedirector Asset)"

text \<open>
  A condition under which the filter loop ends: every referencer that replaces a redirector
  and is itself removed has a package of smaller rank than the redirector's, so no chain of
  redirectors comes back to itself.
\<close>

definition RedirectsDescend :: "Engine \<Rightarrow> (FName \<Rightarrow> nat) \<Rightarrow> bool" where
  "RedirectsDescend E rank =
     (\<forall>Pkg. \<forall>R \<in> set (GetReferencerIds E Pkg).
        Pkg \<noteq> NAME_None \<and> IsBadPackage E Pkg \<and> RedirectorPackage E Pkg \<and> \<not> KeptId E R
          \<longrightarrow> rank (PackageName R) < rank Pkg)"

definition Pending :: "Engine \<Rightarrow> (FName \<Rightarrow> nat) \<Rightarrow> FAssetIdentifier list \<Rightarrow> nat multiset" where
  "Pending E rank Ids = mset (map (\<lambda>k. rank (PackageName k)) (filter (\<lambda>k. \<not> KeptId E k) Ids))"

section \<open>The node-info table\<close>

text \<open>\<^verbatim>\<open>FRefExplorerNodeInfo\<close>; its field \<^verbatim>\<open>AssetId\<close> is \<open>NodeAssetId\<close> here. A \<^verbatim>\<open>TSet\<close> is a
  list without repetition, in the order of insertion.\<close>

record FRefExplorerNodeInfo =
  NodeAssetId :: FAssetIdentifier
  AssetData :: FAssetData
  Children :: "(FAssetIdentifier \<times> EDependencyPinCategory) list"
  Parents :: "FAssetIdentifier list"

definition DefaultAssetData :: FAssetData where
  "DefaultAssetData = FAssetData False False NAME_None"

definition NewNodeInfo :: "FAssetIdentifier \<Rightarrow> FRefExplorerNodeInfo" where
  "NewNodeInfo InAssetId =
     \<lparr>NodeAssetId = InAssetId, AssetData = DefaultAssetData, Children = [], Parents = []\<rparr>"

definition TSet_FindOrAdd :: "'a list \<Rightarrow> 'a \<Rightarrow> 'a list" where
  "TSet_FindOrAdd S x = (if x \<in> set S then S else S @ [x])"

type_synonym NodeInfos = "(FAssetIdentifier, FRefExplorerNodeInfo) TMap"

text \<open>The two statements both branches of the loop of \<^verbatim>\<open>RebuildGraph\<close> end with: the root
  becomes a parent of the child, and the pair is appended to the root's children.\<close>

definition LinkChild ::
  "FAssetIdentifier \<Rightarrow> FAssetIdentifier \<times> EDependencyPinCategory \<Rightarrow> NodeInfos \<Rightarrow> NodeInfos" where
  "LinkChild Root ChildPair Infos =
     TMap_Modify
       (TMap_Modify Infos (fst ChildPair) (\<lambda>N. N\<lparr>Parents := TSet_FindOrAdd (Parents N) Root\<rparr>))
       Root (\<lambda>N. N\<lparr>Children := Children N @ [ChildPair]\<rparr>)"

text \<open>The loop over \<^verbatim>\<open>ReferenceLinks\<close>. \<^verbatim>\<open>Contains(ChildId)\<close> and the later
  \<^verbatim>\<open>RefExplorerNodeInfos[ChildId]\<close> are one lookup here.\<close>

fun AddReferenceLinks ::
  "FAssetIdentifier \<Rightarrow> (FAssetIdentifier \<times> EDependencyPinCategory) list \<Rightarrow> NodeInfos \<Rightarrow> NodeInfos" where
  "AddReferenceLinks Root [] Infos = Infos"
| "AddReferenceLinks Root (ChildPair # Rest) Infos =
     AddReferenceLinks Root Rest
       (case TMap_Find Infos (fst ChildPair) of
          None \<Rightarrow> LinkChild Root ChildPair (TMap_FindOrAdd Infos (fst ChildPair) (NewNodeInfo (fst ChildPair)))
        | Some N \<Rightarrow> if Root \<notin> set (Parents N) then LinkChild Root ChildPair Infos else Infos)"

definition CollectPackageNames :: "NodeInfos \<Rightarrow> FName list" where
  "CollectPackageNames Infos =
     foldl (\<lambda>S Key. if \<not> IsValue Key \<and> PackageName Key \<noteq> NAME_None
                     then TSet_FindOrAdd S (PackageName Key) else S)
       [] (map fst Infos)"

definition TMap_FindRef :: "('k, 'v) TMap \<Rightarrow> 'k \<Rightarrow> 'v \<Rightarrow> 'v" where
  "TMap_FindRef M k Default = (case map_of M k of None \<Rightarrow> Default | Some v \<Rightarrow> v)"

definition AttachAssetData :: "Engine \<Rightarrow> NodeInfos \<Rightarrow> NodeInfos" where
  "AttachAssetData E Infos =
     (let PackagesToAssetDataMap = GetAssetForPackages E (CollectPackageNames Infos)
      in map (\<lambda>(Key, N).
           (Key, N\<lparr>AssetData := TMap_FindRef PackagesToAssetDataMap (PackageName Key) DefaultAssetData\<rparr>))
           Infos)"

definition BuildNodeInfos ::
  "Engine \<Rightarrow> FAssetIdentifier \<Rightarrow> (FAssetIdentifier \<times> EDependencyPinCategory) list \<Rightarrow> NodeInfos" where
  "BuildNodeInfos E Root ReferenceLinks =
     AttachAssetData E (AddReferenceLinks Root ReferenceLinks [(Root, NewNodeInfo Root)])"

section \<open>The layout of the children\<close>

text \<open>
  The coordinates of a node are an \<^verbatim>\<open>FIntPoint\<close>, two \<^verbatim>\<open>int32\<close>: words of 32 bits, read as
  signed numbers by \<open>sint\<close>, whose arithmetic wraps around. The counts and indices of the
  children are \<^verbatim>\<open>int32\<close> too; they are natural numbers here and are turned into words
  where the source computes with them.
\<close>

type_synonym int32 = "32 word"

type_synonym FIntPoint = "int32 \<times> int32"

text \<open>\<^verbatim>\<open>FMath::Min\<close> on \<^verbatim>\<open>int32\<close>: the smaller of two numbers, compared as signed numbers.\<close>

definition FMath_Min :: "int32 \<Rightarrow> int32 \<Rightarrow> int32" where
  "FMath_Min A B = (if sint A < sint B then A else B)"

text \<open>
  The positions are computed in single-precision floating point and stored in an
  \<^verbatim>\<open>FIntPoint\<close>. The floating-point type and its operations belong to the language and the
  engine (\<^verbatim>\<open>FMath\<close>); they are parameters of the model: the conversions from and to
  \<^verbatim>\<open>int32\<close>, the four operations, and \<^verbatim>\<open>Cos\<close>, \<^verbatim>\<open>Sin\<close>, \<^verbatim>\<open>Abs\<close>, \<^verbatim>\<open>Max\<close>.
\<close>

record 'f FMath =
  UE_PI :: 'f
  FromInt :: "int32 \<Rightarrow> 'f"
  ToInt :: "'f \<Rightarrow> int32"
  FAdd :: "'f \<Rightarrow> 'f \<Rightarrow> 'f"
  FSub :: "'f \<Rightarrow> 'f \<Rightarrow> 'f"
  FMul :: "'f \<Rightarrow> 'f \<Rightarrow> 'f"
  FDiv :: "'f \<Rightarrow> 'f \<Rightarrow> 'f"
  FCos :: "'f \<Rightarrow> 'f"
  FSin :: "'f \<Rightarrow> 'f"
  FAbs :: "'f \<Rightarrow> 'f"
  FMax :: "'f \<Rightarrow> 'f \<Rightarrow> 'f"

text \<open>The two implementations of the repository: \<^verbatim>\<open>UEdGraph_RefExplorer\<close> and
  \<^verbatim>\<open>UEdGraph_ReferenceExplorer\<close>. They differ in \<^verbatim>\<open>ChildLoc.X\<close>.\<close>

datatype Variant = RefExplorer | ReferenceExplorer

definition WidthStep :: int32 where
  "WidthStep = 256"

definition HeightStep :: int32 where
  "HeightStep = 400"

definition NodeRadius :: int32 where
  "NodeRadius = 400"

definition DeltaAngle :: "'f FMath \<Rightarrow> nat \<Rightarrow> 'f" where
  "DeltaAngle M Num = FDiv M (UE_PI M) (FromInt M (of_nat Num))"

definition LastAngle :: "'f FMath \<Rightarrow> nat \<Rightarrow> 'f" where
  "LastAngle M Num = FMul M (DeltaAngle M Num) (FromInt M (if Num = 1 then 0 else of_nat Num - 1))"

text \<open>\<^verbatim>\<open>FMath::Max(FMath::Abs(1 - FMath::Cos(DeltaAngle)), FMath::Abs(FMath::Sin(DeltaAngle)))\<close>,
  by which the step is divided.\<close>

definition Chord :: "'f FMath \<Rightarrow> nat \<Rightarrow> 'f" where
  "Chord M Num =
     FMax M (FAbs M (FSub M (FromInt M 1) (FCos M (DeltaAngle M Num))))
            (FAbs M (FSin M (DeltaAngle M Num)))"

definition Radius :: "'f FMath \<Rightarrow> int32 \<Rightarrow> nat \<Rightarrow> 'f" where
  "Radius M Step Num = FDiv M (FromInt M Step) (Chord M Num)"

definition AccumAngle :: "'f FMath \<Rightarrow> nat \<Rightarrow> nat \<Rightarrow> 'f" where
  "AccumAngle M Num ChildIdx = FMul M (FromInt M (of_nat ChildIdx)) (DeltaAngle M Num)"

text \<open>\<^verbatim>\<open>UE_PI - LastAngle / 2\<close> and \<^verbatim>\<open>AccumAngle + (UE_PI - LastAngle / 2)\<close>.\<close>

definition FirstAngle :: "'f FMath \<Rightarrow> nat \<Rightarrow> 'f" where
  "FirstAngle M Num = FSub M (UE_PI M) (FDiv M (LastAngle M Num) (FromInt M 2))"

definition ChildAngle :: "'f FMath \<Rightarrow> nat \<Rightarrow> nat \<Rightarrow> 'f" where
  "ChildAngle M Num ChildIdx = FAdd M (AccumAngle M Num ChildIdx) (FirstAngle M Num)"

text \<open>
  The two coordinates before they are stored: \<^verbatim>\<open>InNodeLoc.X + Radius * FMath::Cos(...)\<close> and
  \<^verbatim>\<open>InNodeLoc.Y - Radius * FMath::Sin(...)\<close>. The \<^verbatim>\<open>int32\<close> coordinate of the parent is converted
  to floating point; storing the result in \<^verbatim>\<open>ChildLoc\<close> converts it back.
\<close>

definition PolarX :: "'f FMath \<Rightarrow> int32 \<Rightarrow> int32 \<Rightarrow> nat \<Rightarrow> nat \<Rightarrow> 'f" where
  "PolarX M Step X Num ChildIdx =
     FAdd M (FromInt M X) (FMul M (Radius M Step Num) (FCos M (ChildAngle M Num ChildIdx)))"

definition PolarY :: "'f FMath \<Rightarrow> int32 \<Rightarrow> int32 \<Rightarrow> nat \<Rightarrow> nat \<Rightarrow> 'f" where
  "PolarY M Step Y Num ChildIdx =
     FSub M (FromInt M Y) (FMul M (Radius M Step Num) (FSin M (ChildAngle M Num ChildIdx)))"

definition ChildLoc :: "Variant \<Rightarrow> 'f FMath \<Rightarrow> FIntPoint \<Rightarrow> nat \<Rightarrow> nat \<Rightarrow> FIntPoint" where
  "ChildLoc V M InNodeLoc Num ChildIdx =
     (case V of
        RefExplorer \<Rightarrow>
          (fst InNodeLoc
             - (FMath_Min (of_nat ChildIdx) (of_nat Num - of_nat ChildIdx - 1) + 1) * WidthStep,
           ToInt M (PolarY M HeightStep (snd InNodeLoc) Num ChildIdx))
      | ReferenceExplorer \<Rightarrow>
          (ToInt M (PolarX M NodeRadius (fst InNodeLoc) Num ChildIdx),
           ToInt M (PolarY M NodeRadius (snd InNodeLoc) Num ChildIdx)))"

text \<open>
  The operations without rounding: real numbers, and the conversion to \<^verbatim>\<open>int32\<close> that drops
  the fraction. With them the layout can be compared with the rule the specification
  writes in real arithmetic.
\<close>

definition Truncate :: "real \<Rightarrow> int" where
  "Truncate r = (if 0 \<le> r then \<lfloor>r\<rfloor> else \<lceil>r\<rceil>)"

definition ExactMath :: "real FMath" where
  "ExactMath =
     \<lparr>UE_PI = pi, FromInt = (\<lambda>k. real_of_int (sint k)), ToInt = (\<lambda>r. word_of_int (Truncate r)),
      FAdd = (+), FSub = (-), FMul = (*), FDiv = (/),
      FCos = cos, FSin = sin, FAbs = abs, FMax = max\<rparr>"

text \<open>The rule of the specification (section 4.4), in its words.\<close>

definition spec_deltaAngle :: "nat \<Rightarrow> real" where
  "spec_deltaAngle n = pi / real n"

definition spec_lastAngle :: "nat \<Rightarrow> real" where
  "spec_lastAngle n = spec_deltaAngle n * (if n = 1 then 0 else real n - 1)"

definition spec_radius :: "real \<Rightarrow> nat \<Rightarrow> real" where
  "spec_radius FixedStep n =
     FixedStep / max \<bar>1 - cos (spec_deltaAngle n)\<bar> \<bar>sin (spec_deltaAngle n)\<bar>"

definition spec_x :: "real \<Rightarrow> real \<Rightarrow> nat \<Rightarrow> nat \<Rightarrow> real" where
  "spec_x FixedStep parentX n i =
     parentX + spec_radius FixedStep n * cos (real i * spec_deltaAngle n + (pi - spec_lastAngle n / 2))"

definition spec_y :: "real \<Rightarrow> real \<Rightarrow> nat \<Rightarrow> nat \<Rightarrow> real" where
  "spec_y FixedStep parentY n i =
     parentY - spec_radius FixedStep n * sin (real i * spec_deltaAngle n + (pi - spec_lastAngle n / 2))"

text \<open>
  The accuracy of the floating-point operations, for floating-point numbers that are real
  numbers. An operation of two arguments rounds at its arguments when its result is the
  exact result with a relative error of at most \<open>eps\<close>; a function approximates at its
  argument when its result is the exact value with an absolute error of at most \<open>eps\<close>.
\<close>

definition Rounds ::
  "real \<Rightarrow> (real \<Rightarrow> real \<Rightarrow> real) \<Rightarrow> (real \<Rightarrow> real \<Rightarrow> real) \<Rightarrow> real \<Rightarrow> real \<Rightarrow> bool" where
  "Rounds eps F Op a b = (\<bar>F a b - Op a b\<bar> \<le> eps * \<bar>Op a b\<bar>)"

definition Approximates :: "real \<Rightarrow> (real \<Rightarrow> real) \<Rightarrow> (real \<Rightarrow> real) \<Rightarrow> real \<Rightarrow> bool" where
  "Approximates eps F f x = (\<bar>F x - f x\<bar> \<le> eps)"

text \<open>
  Every operation that the computation of a coordinate carries out is accurate at the
  arguments it is given there: \<^verbatim>\<open>UE_PI\<close> is \<open>\<pi>\<close> with a relative error of at most \<open>eps\<close>, the
  counts and constants are converted exactly, the four operations round, \<^verbatim>\<open>Cos\<close> and \<^verbatim>\<open>Sin\<close>
  approximate, \<^verbatim>\<open>Abs\<close> and \<^verbatim>\<open>Max\<close> are exact, the coordinate of the parent is converted with a
  relative error of at most \<open>eps\<close>, and the conversion of the result to \<^verbatim>\<open>int32\<close> drops the
  fraction. The conditions are on the operations of the three parts of the computation:
  the angles, the radius, and the coordinate.
\<close>

definition AccurateAngles :: "real FMath \<Rightarrow> real \<Rightarrow> nat \<Rightarrow> nat \<Rightarrow> bool" where
  "AccurateAngles M eps Num ChildIdx =
     (\<bar>UE_PI M - pi\<bar> \<le> eps * pi
      \<and> FromInt M (of_nat Num) = real Num
      \<and> FromInt M (if Num = 1 then 0 else of_nat Num - 1) = real Num - 1
      \<and> FromInt M (of_nat ChildIdx) = real ChildIdx
      \<and> FromInt M 2 = 2
      \<and> Rounds eps (FDiv M) (/) (UE_PI M) (FromInt M (of_nat Num))
      \<and> Rounds eps (FMul M) (*) (DeltaAngle M Num) (FromInt M (if Num = 1 then 0 else of_nat Num - 1))
      \<and> Rounds eps (FMul M) (*) (FromInt M (of_nat ChildIdx)) (DeltaAngle M Num)
      \<and> Rounds eps (FDiv M) (/) (LastAngle M Num) (FromInt M 2)
      \<and> Rounds eps (FSub M) (-) (UE_PI M) (FDiv M (LastAngle M Num) (FromInt M 2))
      \<and> Rounds eps (FAdd M) (+) (AccumAngle M Num ChildIdx) (FirstAngle M Num))"

definition AccurateRadius :: "real FMath \<Rightarrow> real \<Rightarrow> int32 \<Rightarrow> nat \<Rightarrow> bool" where
  "AccurateRadius M eps Step Num =
     (FromInt M 1 = 1
      \<and> FromInt M Step = real_of_int (sint Step)
      \<and> Approximates eps (FCos M) cos (DeltaAngle M Num)
      \<and> Approximates eps (FSin M) sin (DeltaAngle M Num)
      \<and> Rounds eps (FSub M) (-) (FromInt M 1) (FCos M (DeltaAngle M Num))
      \<and> FAbs M (FSub M (FromInt M 1) (FCos M (DeltaAngle M Num)))
           = \<bar>FSub M (FromInt M 1) (FCos M (DeltaAngle M Num))\<bar>
      \<and> FAbs M (FSin M (DeltaAngle M Num)) = \<bar>FSin M (DeltaAngle M Num)\<bar>
      \<and> FMax M \<bar>FSub M (FromInt M 1) (FCos M (DeltaAngle M Num))\<bar> \<bar>FSin M (DeltaAngle M Num)\<bar>
           = max \<bar>FSub M (FromInt M 1) (FCos M (DeltaAngle M Num))\<bar> \<bar>FSin M (DeltaAngle M Num)\<bar>
      \<and> Rounds eps (FDiv M) (/) (FromInt M Step) (Chord M Num))"

definition AccurateY :: "real FMath \<Rightarrow> real \<Rightarrow> int32 \<Rightarrow> int32 \<Rightarrow> nat \<Rightarrow> nat \<Rightarrow> bool" where
  "AccurateY M eps Step Y Num ChildIdx =
     (AccurateAngles M eps Num ChildIdx \<and> AccurateRadius M eps Step Num
      \<and> Approximates eps (FSin M) sin (ChildAngle M Num ChildIdx)
      \<and> Rounds eps (FMul M) (*) (Radius M Step Num) (FSin M (ChildAngle M Num ChildIdx))
      \<and> \<bar>FromInt M Y - real_of_int (sint Y)\<bar> \<le> eps * \<bar>real_of_int (sint Y)\<bar>
      \<and> Rounds eps (FSub M) (-) (FromInt M Y)
            (FMul M (Radius M Step Num) (FSin M (ChildAngle M Num ChildIdx)))
      \<and> sint (ToInt M (PolarY M Step Y Num ChildIdx)) = Truncate (PolarY M Step Y Num ChildIdx))"

definition AccurateX :: "real FMath \<Rightarrow> real \<Rightarrow> int32 \<Rightarrow> int32 \<Rightarrow> nat \<Rightarrow> nat \<Rightarrow> bool" where
  "AccurateX M eps Step X Num ChildIdx =
     (AccurateAngles M eps Num ChildIdx \<and> AccurateRadius M eps Step Num
      \<and> Approximates eps (FCos M) cos (ChildAngle M Num ChildIdx)
      \<and> Rounds eps (FMul M) (*) (Radius M Step Num) (FCos M (ChildAngle M Num ChildIdx))
      \<and> \<bar>FromInt M X - real_of_int (sint X)\<bar> \<le> eps * \<bar>real_of_int (sint X)\<bar>
      \<and> Rounds eps (FAdd M) (+) (FromInt M X)
            (FMul M (Radius M Step Num) (FCos M (ChildAngle M Num ChildIdx)))
      \<and> sint (ToInt M (PolarX M Step X Num ChildIdx)) = Truncate (PolarX M Step X Num ChildIdx))"

text \<open>
  How far a coordinate computed with such operations can be from the rule of the
  specification before the fraction is dropped: a bound in the accuracy, the coordinate of
  the parent and the radius.
\<close>

definition LayoutBound :: "real \<Rightarrow> real \<Rightarrow> real \<Rightarrow> nat \<Rightarrow> real" where
  "LayoutBound eps FixedStep parent n =
     eps * (3 * \<bar>parent\<bar> + 63 * spec_radius FixedStep n
            + 49 * (spec_radius FixedStep n * spec_radius FixedStep n / FixedStep))"

section \<open>The graph and its nodes\<close>

text \<open>
  A node of the graph, with the nodes linked to its referencer pin. Every call of
  \<^verbatim>\<open>RecursivelyCreateNodes\<close> makes one node and links it to the nodes its own calls return,
  so the nodes and the links between their pins form a tree, which this type is.
  \<^verbatim>\<open>AllocateDefaultPins\<close> gives both pins of a new node the category name of
  \<^verbatim>\<open>LinkEndPassive\<close>; the referencer pin keeps it.
\<close>

datatype UEdGraphNode_RefExplorer =
  GraphNode (Identifier: FAssetIdentifier) (NodePos: FIntPoint)
    (DependencyPinCategory: FName) (Referencers: "UEdGraphNode_RefExplorer list")

definition PassiveName :: FName where
  "PassiveName = GetName LinkEndPassive"

definition ReferencerPinCategory :: "UEdGraphNode_RefExplorer \<Rightarrow> FName" where
  "ReferencerPinCategory Node = PassiveName"

definition SetDependencyPinCategory :: "UEdGraphNode_RefExplorer \<Rightarrow> FName \<Rightarrow> UEdGraphNode_RefExplorer" where
  "SetDependencyPinCategory Node PinCategory =
     GraphNode (Identifier Node) (NodePos Node) PinCategory (Referencers Node)"

text \<open>
  A call that gives no node: a failed \<^verbatim>\<open>check\<close>, a dereferenced null pointer, a loop that
  does not end (\<open>Diverges\<close>), or a recursion deeper than the fuel given to the model.
\<close>

datatype Failure = CheckFailed | NullPointer | Diverges | OutOfFuel

text \<open>
  \<^verbatim>\<open>RecursivelyCreateNodes\<close> and its loop over the children. For the root the source uses
  the node \<^verbatim>\<open>RebuildGraph\<close> has made at the origin with the root's identifier; for any other
  identifier it makes the node at \<^verbatim>\<open>InNodeLoc\<close>: in both cases the node of \<open>InAssetId\<close> at
  \<open>InNodeLoc\<close>. The recursion has no bound of its own, so the model counts it down.
\<close>

function RecursivelyCreateNodes ::
  "Variant \<Rightarrow> 'f FMath \<Rightarrow> nat \<Rightarrow> NodeInfos \<Rightarrow> FAssetIdentifier \<Rightarrow> FIntPoint
     \<Rightarrow> Failure + UEdGraphNode_RefExplorer"
and CreateChildNodes ::
  "Variant \<Rightarrow> 'f FMath \<Rightarrow> nat \<Rightarrow> NodeInfos \<Rightarrow> FIntPoint
     \<Rightarrow> (FAssetIdentifier \<times> EDependencyPinCategory) list \<Rightarrow> nat
     \<Rightarrow> Failure + UEdGraphNode_RefExplorer list" where
  "RecursivelyCreateNodes V M 0 InNodeInfos InAssetId InNodeLoc = Inl OutOfFuel"
| "RecursivelyCreateNodes V M (Suc fuel) InNodeInfos InAssetId InNodeLoc =
     (case TMap_Find InNodeInfos InAssetId of
        None \<Rightarrow> Inl CheckFailed
      | Some NodeInfo \<Rightarrow>
          (case CreateChildNodes V M fuel InNodeInfos InNodeLoc (Children NodeInfo) 0 of
             Inl e \<Rightarrow> Inl e
           | Inr ChildNodes \<Rightarrow> Inr (GraphNode InAssetId InNodeLoc PassiveName ChildNodes)))"
| "CreateChildNodes V M fuel InNodeInfos InNodeLoc Cs ChildIdx =
     (if ChildIdx < length Cs then
        (case RecursivelyCreateNodes V M fuel InNodeInfos (fst (Cs ! ChildIdx))
                (ChildLoc V M InNodeLoc (length Cs) ChildIdx) of
           Inl e \<Rightarrow> Inl e
         | Inr ChildNode \<Rightarrow>
             (case CreateChildNodes V M fuel InNodeInfos InNodeLoc Cs (Suc ChildIdx) of
                Inl e \<Rightarrow> Inl e
              | Inr Rest \<Rightarrow>
                  Inr (SetDependencyPinCategory ChildNode (GetName (snd (Cs ! ChildIdx))) # Rest)))
      else Inr [])"
  by pat_completeness auto
termination
  by (relation "measures
        [case_sum (\<lambda>(V, M, fuel, R). fuel) (\<lambda>(V, M, fuel, R). fuel),
         case_sum (\<lambda>R. 0) (\<lambda>R. 1),
         case_sum (\<lambda>R. 0) (\<lambda>(V, M, fuel, Infos, Loc, Cs, ChildIdx). length Cs - ChildIdx)]")
     auto

declare CreateChildNodes.simps [simp del]

record UEdGraph_RefExplorer =
  CurrentGraphRootIdentifier :: FAssetIdentifier
  CurrentGraphRootOrigin :: FIntPoint
  RefExplorerNodeInfos :: NodeInfos
  Nodes :: "UEdGraphNode_RefExplorer option"

definition SetGraphRoot ::
  "UEdGraph_RefExplorer \<Rightarrow> FAssetIdentifier \<Rightarrow> FIntPoint \<Rightarrow> UEdGraph_RefExplorer" where
  "SetGraphRoot G GraphRootIdentifier GraphRootOrigin =
     G\<lparr>CurrentGraphRootIdentifier := GraphRootIdentifier, CurrentGraphRootOrigin := GraphRootOrigin\<rparr>"

text \<open>\<^verbatim>\<open>UEdGraph_RefExplorer::RebuildGraph\<close>. The old nodes and the old table are dropped
  before anything is read from them.\<close>

definition RebuildGraph ::
  "Variant \<Rightarrow> 'f FMath \<Rightarrow> nat \<Rightarrow> Engine \<Rightarrow> UEdGraph_RefExplorer \<Rightarrow> Failure + UEdGraph_RefExplorer" where
  "RebuildGraph V M fuel E G =
     (let Root = CurrentGraphRootIdentifier G
      in case GetSortedLinks E Root of
           None \<Rightarrow> Inl Diverges
         | Some ReferenceLinks \<Rightarrow>
             (let Infos = BuildNodeInfos E Root ReferenceLinks
              in case RecursivelyCreateNodes V M fuel Infos Root (CurrentGraphRootOrigin G) of
                   Inl e \<Rightarrow> Inl e
                 | Inr RootNode \<Rightarrow> Inr (G\<lparr>RefExplorerNodeInfos := Infos, Nodes := Some RootNode\<rparr>)))"

text \<open>The nodes of a tree, the edges of a tree as pairs of a child's dependency pin and its
  parent's referencer pin, and the number of levels below a node.\<close>

fun AllNodes :: "UEdGraphNode_RefExplorer \<Rightarrow> UEdGraphNode_RefExplorer list" where
  "AllNodes (GraphNode I P C Rs) = GraphNode I P C Rs # concat (map AllNodes Rs)"

fun Edges :: "UEdGraphNode_RefExplorer \<Rightarrow> (FName \<times> FName) list" where
  "Edges (GraphNode I P C Rs) =
     map (\<lambda>R. (DependencyPinCategory R, PassiveName)) Rs @ concat (map Edges Rs)"

fun Depth :: "UEdGraphNode_RefExplorer \<Rightarrow> nat" where
  "Depth (GraphNode I P C Rs) = (if Rs = [] then 0 else Suc (Max (Depth ` set Rs)))"

section \<open>The widget\<close>

text \<open>
  \<^verbatim>\<open>SRefExplorer\<close>, with the delegates of the asset registry it subscribes to. A delegate is
  the list of its bindings, each the bound object and the bound member function; \<open>Self\<close> is
  the widget's own identity (\<^verbatim>\<open>this\<close>). \<open>AssetRefreshHandle\<close> is whether the handle is valid.
\<close>

datatype Handler = BoundOnInitialAssetRegistrySearchComplete | BoundOnAssetRegistryChanged

record SRefExplorer =
  Self :: nat
  GraphObj :: "UEdGraph_RefExplorer option"
  bDirtyResults :: bool
  AssetRefreshHandle :: bool
  OnFilesLoaded :: "(nat \<times> Handler) list"
  OnAssetUpdated :: "(nat \<times> Handler) list"
  OnAssetAdded :: "(nat \<times> Handler) list"
  OnAssetRemoved :: "(nat \<times> Handler) list"

definition IsBoundToObject :: "(nat \<times> Handler) list \<Rightarrow> nat \<Rightarrow> bool" where
  "IsBoundToObject Delegate Obj = (Obj \<in> fst ` set Delegate)"

definition AddSP :: "(nat \<times> Handler) list \<Rightarrow> nat \<Rightarrow> Handler \<Rightarrow> (nat \<times> Handler) list" where
  "AddSP Delegate Obj H = Delegate @ [(Obj, H)]"

text \<open>\<^verbatim>\<open>if (GraphObj) GraphObj->RebuildGraph();\<close>\<close>

definition RebuildGraphObj ::
  "Variant \<Rightarrow> 'f FMath \<Rightarrow> nat \<Rightarrow> Engine \<Rightarrow> UEdGraph_RefExplorer option
     \<Rightarrow> Failure + UEdGraph_RefExplorer option" where
  "RebuildGraphObj V M fuel E Obj =
     (case Obj of
        None \<Rightarrow> Inr None
      | Some G \<Rightarrow> (case RebuildGraph V M fuel E G of Inl e \<Rightarrow> Inl e | Inr G' \<Rightarrow> Inr (Some G')))"

definition SRefExplorer_RebuildGraph ::
  "Variant \<Rightarrow> 'f FMath \<Rightarrow> nat \<Rightarrow> Engine \<Rightarrow> SRefExplorer \<Rightarrow> Failure + SRefExplorer" where
  "SRefExplorer_RebuildGraph V M fuel E W =
     (if IsLoadingAssets E then
        Inr (if \<not> IsBoundToObject (OnFilesLoaded W) (Self W)
             then W\<lparr>OnFilesLoaded :=
                      AddSP (OnFilesLoaded W) (Self W) BoundOnInitialAssetRegistrySearchComplete\<rparr>
             else W)
      else
        (case RebuildGraphObj V M fuel E (GraphObj W) of
           Inl e \<Rightarrow> Inl e
         | Inr Obj \<Rightarrow>
             (let W1 = W\<lparr>GraphObj := Obj, bDirtyResults := False\<rparr>
              in Inr (if \<not> AssetRefreshHandle W1
                      then W1\<lparr>AssetRefreshHandle := True,
                              OnAssetUpdated := AddSP (OnAssetUpdated W1) (Self W1) BoundOnAssetRegistryChanged,
                              OnAssetAdded := AddSP (OnAssetAdded W1) (Self W1) BoundOnAssetRegistryChanged,
                              OnAssetRemoved := AddSP (OnAssetRemoved W1) (Self W1) BoundOnAssetRegistryChanged\<rparr>
                      else W1))))"

text \<open>The zoom of the view that follows the rebuild in the source changes no field kept here.\<close>

definition RefreshClicked ::
  "Variant \<Rightarrow> 'f FMath \<Rightarrow> nat \<Rightarrow> Engine \<Rightarrow> SRefExplorer \<Rightarrow> Failure + SRefExplorer" where
  "RefreshClicked V M fuel E W = SRefExplorer_RebuildGraph V M fuel E W"

definition SetGraphRootIdentifier ::
  "Variant \<Rightarrow> 'f FMath \<Rightarrow> nat \<Rightarrow> Engine \<Rightarrow> SRefExplorer \<Rightarrow> FAssetIdentifier \<Rightarrow> Failure + SRefExplorer" where
  "SetGraphRootIdentifier V M fuel E W NewGraphRootIdentifier =
     (case GraphObj W of
        None \<Rightarrow> Inl NullPointer
      | Some G \<Rightarrow>
          SRefExplorer_RebuildGraph V M fuel E
            (W\<lparr>GraphObj := Some (SetGraphRoot G NewGraphRootIdentifier (0, 0))\<rparr>))"

definition OnAssetRegistryChanged :: "SRefExplorer \<Rightarrow> FAssetData \<Rightarrow> SRefExplorer" where
  "OnAssetRegistryChanged W AssetDataChanged = W\<lparr>bDirtyResults := True\<rparr>"

definition OnInitialAssetRegistrySearchComplete ::
  "Variant \<Rightarrow> 'f FMath \<Rightarrow> nat \<Rightarrow> Engine \<Rightarrow> SRefExplorer \<Rightarrow> Failure + SRefExplorer" where
  "OnInitialAssetRegistrySearchComplete V M fuel E W =
     (case RebuildGraphObj V M fuel E (GraphObj W) of
        Inl e \<Rightarrow> Inl e
      | Inr Obj \<Rightarrow> Inr (W\<lparr>GraphObj := Obj\<rparr>))"

text \<open>
  The handlers of a double click on a node and of a choice in the asset picker
  (\<^verbatim>\<open>OnFindPathAssetSelected\<close>, \<^verbatim>\<open>OnFindPathAssetEnterPressed\<close>). They set the root of the graph
  and call \<^verbatim>\<open>GraphObj->RebuildGraph()\<close> themselves. \<open>Node\<close> is the result of the cast of the
  clicked node to \<^verbatim>\<open>UEdGraphNode_RefExplorer\<close>; of the asset data only the package name is
  read. The picker's handlers use \<^verbatim>\<open>GraphObj\<close> without a test.
\<close>

definition OnNodeDoubleClicked ::
  "Variant \<Rightarrow> 'f FMath \<Rightarrow> nat \<Rightarrow> Engine \<Rightarrow> SRefExplorer \<Rightarrow> UEdGraphNode_RefExplorer option
     \<Rightarrow> Failure + SRefExplorer" where
  "OnNodeDoubleClicked V M fuel E W Node =
     (case GraphObj W of
        None \<Rightarrow> Inr W
      | Some G \<Rightarrow>
          (case Node of
             None \<Rightarrow> Inr W
           | Some RefExplorerNode \<Rightarrow>
               (case RebuildGraph V M fuel E (SetGraphRoot G (Identifier RefExplorerNode) (0, 0)) of
                  Inl e \<Rightarrow> Inl e
                | Inr G' \<Rightarrow> Inr (W\<lparr>GraphObj := Some G'\<rparr>))))"

definition OnFindPathAssetSelected ::
  "Variant \<Rightarrow> 'f FMath \<Rightarrow> nat \<Rightarrow> Engine \<Rightarrow> SRefExplorer \<Rightarrow> FName \<Rightarrow> Failure + SRefExplorer" where
  "OnFindPathAssetSelected V M fuel E W AssetData_PackageName =
     (case GraphObj W of
        None \<Rightarrow> Inl NullPointer
      | Some G \<Rightarrow>
          (case RebuildGraph V M fuel E
                  (SetGraphRoot G (FAssetIdentifier AssetData_PackageName NAME_None NAME_None) (0, 0)) of
             Inl e \<Rightarrow> Inl e
           | Inr G' \<Rightarrow> Inr (W\<lparr>GraphObj := Some G'\<rparr>)))"

definition OnFindPathAssetEnterPressed ::
  "Variant \<Rightarrow> 'f FMath \<Rightarrow> nat \<Rightarrow> Engine \<Rightarrow> SRefExplorer \<Rightarrow> FName list \<Rightarrow> Failure + SRefExplorer" where
  "OnFindPathAssetEnterPressed V M fuel E W AssetData_PackageNames =
     (if AssetData_PackageNames \<noteq> []
      then OnFindPathAssetSelected V M fuel E W (AssetData_PackageNames ! 0)
      else Inr W)"

text \<open>
  When its search is complete the registry calls what is bound to \<^verbatim>\<open>OnFilesLoaded\<close>, in the
  order of the bindings. The delegate is the engine's; of its bindings the widget's own
  \<^verbatim>\<open>OnInitialAssetRegistrySearchComplete\<close> is run here, and a binding of another object is
  passed over.
\<close>

fun Broadcast ::
  "Variant \<Rightarrow> 'f FMath \<Rightarrow> nat \<Rightarrow> Engine \<Rightarrow> (nat \<times> Handler) list \<Rightarrow> SRefExplorer
     \<Rightarrow> Failure + SRefExplorer" where
  "Broadcast V M fuel E [] W = Inr W"
| "Broadcast V M fuel E ((Obj, H) # Rest) W =
     (if Obj = Self W \<and> H = BoundOnInitialAssetRegistrySearchComplete then
        (case OnInitialAssetRegistrySearchComplete V M fuel E W of
           Inl e \<Rightarrow> Inl e
         | Inr W' \<Rightarrow> Broadcast V M fuel E Rest W')
      else Broadcast V M fuel E Rest W)"

definition FilesLoaded ::
  "Variant \<Rightarrow> 'f FMath \<Rightarrow> nat \<Rightarrow> Engine \<Rightarrow> SRefExplorer \<Rightarrow> Failure + SRefExplorer" where
  "FilesLoaded V M fuel E W = Broadcast V M fuel E (OnFilesLoaded W) W"

text \<open>A number of rebuild requests one after the other, and a number of notifications of the
  asset registry one after the other.\<close>

fun RebuildRequests ::
  "Variant \<Rightarrow> 'f FMath \<Rightarrow> nat \<Rightarrow> Engine \<Rightarrow> nat \<Rightarrow> SRefExplorer \<Rightarrow> Failure + SRefExplorer" where
  "RebuildRequests V M fuel E 0 W = Inr W"
| "RebuildRequests V M fuel E (Suc n) W =
     (case SRefExplorer_RebuildGraph V M fuel E W of
        Inl e \<Rightarrow> Inl e
      | Inr W' \<Rightarrow> RebuildRequests V M fuel E n W')"

definition Notifications :: "FAssetData list \<Rightarrow> SRefExplorer \<Rightarrow> SRefExplorer" where
  "Notifications As W = foldl OnAssetRegistryChanged W As"

definition CountBound :: "(nat \<times> Handler) list \<Rightarrow> nat \<Rightarrow> nat" where
  "CountBound Delegate Obj = length (filter (\<lambda>B. fst B = Obj) Delegate)"

text \<open>The widget after a rebuild request that finds the registry loading: the
  continuation is bound if the widget has no binding to \<^verbatim>\<open>OnFilesLoaded\<close> yet.\<close>

definition Deferred :: "SRefExplorer \<Rightarrow> SRefExplorer" where
  "Deferred W =
     (if IsBoundToObject (OnFilesLoaded W) (Self W) then W
      else W\<lparr>OnFilesLoaded := OnFilesLoaded W @ [(Self W, BoundOnInitialAssetRegistrySearchComplete)]\<rparr>)"

section \<open>The result of a build, in closed form\<close>

text \<open>
  What \<^verbatim>\<open>RebuildGraph\<close> leaves behind, written without iteration: the table has the root's
  entry, whose children are the links, and one entry without children for every other
  target; the nodes are the root with one node without referencers for every link.
\<close>

definition ChildInfo :: "FAssetIdentifier \<Rightarrow> FAssetIdentifier \<Rightarrow> FRefExplorerNodeInfo" where
  "ChildInfo Root ChildId = (NewNodeInfo ChildId)\<lparr>Parents := [Root]\<rparr>"

definition RootInfo ::
  "FAssetIdentifier \<Rightarrow> (FAssetIdentifier \<times> EDependencyPinCategory) list \<Rightarrow> FRefExplorerNodeInfo" where
  "RootInfo Root Links =
     (NewNodeInfo Root)\<lparr>Children := Links,
                         Parents := (if Root \<in> fst ` set Links then [Root] else [])\<rparr>"

definition LinkedInfos ::
  "FAssetIdentifier \<Rightarrow> (FAssetIdentifier \<times> EDependencyPinCategory) list \<Rightarrow> NodeInfos" where
  "LinkedInfos Root Links =
     (Root, RootInfo Root Links)
       # map (\<lambda>(ChildId, Cat). (ChildId, ChildInfo Root ChildId))
           (filter (\<lambda>(ChildId, Cat). ChildId \<noteq> Root) Links)"

definition LeafNode ::
  "Variant \<Rightarrow> 'f FMath \<Rightarrow> FIntPoint \<Rightarrow> (FAssetIdentifier \<times> EDependencyPinCategory) list \<Rightarrow> nat
     \<Rightarrow> UEdGraphNode_RefExplorer" where
  "LeafNode V M InNodeLoc Cs ChildIdx =
     GraphNode (fst (Cs ! ChildIdx)) (ChildLoc V M InNodeLoc (length Cs) ChildIdx)
       (GetName (snd (Cs ! ChildIdx))) []"

definition RootTree ::
  "Variant \<Rightarrow> 'f FMath \<Rightarrow> FAssetIdentifier \<Rightarrow> FIntPoint
     \<Rightarrow> (FAssetIdentifier \<times> EDependencyPinCategory) list \<Rightarrow> UEdGraphNode_RefExplorer" where
  "RootTree V M Root Origin Links =
     GraphNode Root Origin PassiveName (map (LeafNode V M Origin Links) [0..<length Links])"

definition BuiltGraph ::
  "Variant \<Rightarrow> 'f FMath \<Rightarrow> Engine \<Rightarrow> UEdGraph_RefExplorer
     \<Rightarrow> (FAssetIdentifier \<times> EDependencyPinCategory) list \<Rightarrow> UEdGraph_RefExplorer" where
  "BuiltGraph V M E G Links =
     G\<lparr>RefExplorerNodeInfos := BuildNodeInfos E (CurrentGraphRootIdentifier G) Links,
       Nodes := Some (RootTree V M (CurrentGraphRootIdentifier G) (CurrentGraphRootOrigin G) Links)\<rparr>"

section \<open>Concrete inputs\<close>

text \<open>Inputs at which the theorems below are instantiated: an order of names that separates
  no two names, the identifier of a package, and a dependency record.\<close>

definition NoOrder :: "FName \<Rightarrow> FName \<Rightarrow> bool" where
  "NoOrder a b = False"

definition PkgId :: "string \<Rightarrow> FAssetIdentifier" where
  "PkgId s = FAssetIdentifier (Name s) NAME_None NAME_None"

definition Dep :: "string \<Rightarrow> EDependencyCategory \<Rightarrow> EDependencyProperty list \<Rightarrow> FAssetDependency" where
  "Dep s c ps = \<lparr>AssetId = PkgId s, Category = c, Properties = set ps\<rparr>"

text \<open>A registry: the root has the referencers \<open>A\<close> (reported twice), \<open>B\<close> and \<open>T\<close>
  (reported twice); \<open>T\<close> has no package data and is a redirector with the referencers \<open>R1\<close>
  and \<open>R2\<close>.\<close>

definition DemoRoot :: FAssetIdentifier where
  "DemoRoot = PkgId ''Root''"

definition DemoEngine :: Engine where
  "DemoEngine =
     \<lparr>IsLoadingAssets = False,
      GetReferencers = (\<lambda>AssetIdentifier InCategories. filter (\<lambda>L. Category L \<in> InCategories)
        (if AssetIdentifier = PkgId ''Root''
         then [Dep ''A'' Package [Hard], Dep ''T'' Package [], Dep ''B'' Manage [Direct],
               Dep ''A'' Package [Hard], Dep ''T'' Package []]
         else [])),
      GetReferencerIds = (\<lambda>Pkg. if Pkg = Name ''T'' then [PkgId ''R1'', PkgId ''R2''] else []),
      GetAssetPackageDataCopy = (\<lambda>Pkg. if Pkg = Name ''T'' then None else Some \<lparr>DiskSize = 10\<rparr>),
      GetAssetsByPackageName = (\<lambda>Pkg. if Pkg = Name ''T'' then [FAssetData True True NAME_None] else []),
      GetAssetForPackages = (\<lambda>Pkgs. []),
      LexicalLess = NoOrder\<rparr>"

definition DemoGraph :: UEdGraph_RefExplorer where
  "DemoGraph =
     \<lparr>CurrentGraphRootIdentifier = DemoRoot, CurrentGraphRootOrigin = (0, 0),
      RefExplorerNodeInfos = [], Nodes = None\<rparr>"

text \<open>A widget on the concrete graph, the same registry while it is loading, and a table
  in which the root has one child.\<close>

definition DemoWidget :: SRefExplorer where
  "DemoWidget =
     \<lparr>Self = 1, GraphObj = Some DemoGraph, bDirtyResults = False, AssetRefreshHandle = False,
      OnFilesLoaded = [], OnAssetUpdated = [], OnAssetAdded = [], OnAssetRemoved = []\<rparr>"

definition LoadingEngine :: Engine where
  "LoadingEngine = DemoEngine\<lparr>IsLoadingAssets := True\<rparr>"

text \<open>A registry with a cycle of redirectors: the root's only referencer \<open>T\<close> has no
  package data and is a redirector whose only referencer is \<open>T\<close> itself.\<close>

definition CycleEngine :: Engine where
  "CycleEngine =
     \<lparr>IsLoadingAssets = False,
      GetReferencers = (\<lambda>AssetIdentifier InCategories. filter (\<lambda>L. Category L \<in> InCategories)
        (if AssetIdentifier = PkgId ''Root'' then [Dep ''T'' Package []] else [])),
      GetReferencerIds = (\<lambda>Pkg. if Pkg = Name ''T'' then [PkgId ''T''] else []),
      GetAssetPackageDataCopy = (\<lambda>Pkg. if Pkg = Name ''T'' then None else Some \<lparr>DiskSize = 10\<rparr>),
      GetAssetsByPackageName = (\<lambda>Pkg. if Pkg = Name ''T'' then [FAssetData True True NAME_None] else []),
      GetAssetForPackages = (\<lambda>Pkgs. []),
      LexicalLess = NoOrder\<rparr>"

text \<open>An order of names by their characters, \<^verbatim>\<open>NAME_None\<close> first, and a registry with this
  order whose root has five records of referencers.\<close>

fun CharsLess :: "string \<Rightarrow> string \<Rightarrow> bool" where
  "CharsLess [] [] = False"
| "CharsLess [] (y # ys) = True"
| "CharsLess (x # xs) [] = False"
| "CharsLess (x # xs) (y # ys) = (of_char x < (of_char y :: nat) \<or> (x = y \<and> CharsLess xs ys))"

definition AlphabeticalLess :: "FName \<Rightarrow> FName \<Rightarrow> bool" where
  "AlphabeticalLess a b =
     (case a of
        NAME_None \<Rightarrow> b \<noteq> NAME_None
      | Name x \<Rightarrow> (case b of NAME_None \<Rightarrow> False | Name y \<Rightarrow> CharsLess x y))"

definition AlphabetLinks :: "FAssetDependency list" where
  "AlphabetLinks =
     [Dep ''C'' Manage [Direct], Dep ''B'' Package [], Dep ''Z'' Package [Hard],
      Dep ''A'' Package [Hard], Dep ''B'' Manage []]"

definition AlphabetEngine :: Engine where
  "AlphabetEngine =
     DemoEngine\<lparr>GetReferencers := (\<lambda>AssetIdentifier InCategories. filter (\<lambda>L. Category L \<in> InCategories)
        (if AssetIdentifier = PkgId ''Root'' then AlphabetLinks else [])),
       LexicalLess := AlphabeticalLess\<rparr>"

text \<open>A registry that knows three referencers of the root, none with a flag: \<open>S\<close> by a
  record of category \<^verbatim>\<open>SearchableName\<close>, \<open>M\<close> by one of category \<^verbatim>\<open>Manage\<close> and \<open>P\<close> by one of
  category \<^verbatim>\<open>Package\<close>. A query is answered with the records of the categories asked for.\<close>

definition SearchableEngine :: Engine where
  "SearchableEngine =
     DemoEngine\<lparr>GetReferencers := (\<lambda>AssetIdentifier InCategories. filter (\<lambda>L. Category L \<in> InCategories)
        (if AssetIdentifier = PkgId ''Root''
         then [Dep ''S'' SearchableName [], Dep ''M'' Manage [], Dep ''P'' Package []]
         else []))\<rparr>"

text \<open>Operations that are exact but for the sine, which is too small by \<open>1 / 2 ^ 25\<close>.\<close>

definition RoundedMath :: "real FMath" where
  "RoundedMath = ExactMath\<lparr>FSin := (\<lambda>x. sin x - 1 / 2 ^ 25)\<rparr>"

definition OneChildInfos :: NodeInfos where
  "OneChildInfos =
     [(DemoRoot, (NewNodeInfo DemoRoot)\<lparr>Children := [(PkgId ''A'', LinkEndActive)]\<rparr>),
      (PkgId ''A'', (NewNodeInfo (PkgId ''A''))\<lparr>Parents := [DemoRoot]\<rparr>)]"

section \<open>Properties of the category map\<close>

lemmas cat_defs = LinkEndActive_def LinkEndPassive_def LinkEndMask_def LinkTypeNone_def
  LinkTypeUsedInGame_def LinkTypeHard_def LinkTypeMask_def

lemmas name_defs = NamePassive_def NameHardUsedInGame_def NameHardEditorOnly_def
  NameSoftUsedInGame_def NameSoftEditorOnly_def


lemma LinkBits_PinCat:
  "LinkBits L (PinCat h g) = PinCat (h \<or> IsHard (Properties L)) (g \<or> UsedInGame L)"
  by (simp add: LinkBits_def PinCat_def UsedInGame_def LinkEndActive_def LinkTypeHard_def LinkTypeNone_def LinkTypeUsedInGame_def)

lemma LinkBits_first:
  "LinkBits L LinkEndActive = PinCat (IsHard (Properties L)) (UsedInGame L)"
  by (simp add: LinkBits_def PinCat_def UsedInGame_def LinkEndActive_def LinkTypeHard_def LinkTypeNone_def LinkTypeUsedInGame_def)

lemma map_of_TMap_Modify:
  "map_of (TMap_Modify M k f) T = (if T = k then map_option f (map_of M k) else map_of M T)"
  by (induction M) (auto simp: TMap_Modify_def)

lemma map_of_TMap_FindOrAdd:
  "map_of (TMap_FindOrAdd M k v) T =
     (case map_of M T of Some c \<Rightarrow> Some c | None \<Rightarrow> if T = k then Some v else None)"
proof (cases "TMap_Contains M k")
  case True
  then have "map_of M k \<noteq> None"
    by (simp add: TMap_Contains_def map_of_eq_None_iff)
  then show ?thesis using True
    by (auto simp: TMap_FindOrAdd_def split: option.splits)
next
  case False
  then have "map_of M k = None"
    by (simp add: TMap_Contains_def map_of_eq_None_iff)
  then show ?thesis using False
    by (auto simp: TMap_FindOrAdd_def map_add_def split: option.splits)
qed

lemma AccumulateLinks_append:
  "AccumulateLinks (xs @ ys) M = AccumulateLinks ys (AccumulateLinks xs M)"
  by (induction xs arbitrary: M) auto

lemma map_of_AccumulateLinks:
  "map_of (AccumulateLinks Ls []) T =
     (if T \<in> AssetId ` set Ls
      then Some (PinCat (\<exists>L \<in> set Ls. AssetId L = T \<and> IsHard (Properties L))
                        (\<exists>L \<in> set Ls. AssetId L = T \<and> UsedInGame L))
      else None)"
proof (induction Ls rule: rev_induct)
  case Nil
  then show ?case by simp
next
  case (snoc L Ls)
  show ?case
  proof (cases "T = AssetId L")
    case False
    then show ?thesis
      using snoc by (auto simp: AccumulateLinks_append map_of_TMap_Modify map_of_TMap_FindOrAdd)
  next
    case True
    show ?thesis
    proof (cases "T \<in> AssetId ` set Ls")
      case yes: True
      then show ?thesis using snoc True
        by (auto simp add: AccumulateLinks_append map_of_TMap_Modify map_of_TMap_FindOrAdd LinkBits_PinCat
              intro!: arg_cong2[where f = PinCat])
    next
      case no: False
      with True have none: "\<And>P. \<not> (\<exists>La \<in> set Ls. AssetId La = AssetId L \<and> P La)"
        by (metis imageI)
      from no show ?thesis using snoc True
        by (simp add: AccumulateLinks_append map_of_TMap_Modify map_of_TMap_FindOrAdd LinkBits_first none)
    qed
  qed
qed

lemma keys_TMap_Modify: "map fst (TMap_Modify M k f) = map fst M"
  by (induction M) (auto simp: TMap_Modify_def)

lemma keys_TMap_FindOrAdd:
  "map fst (TMap_FindOrAdd M k v) = (if k \<in> set (map fst M) then map fst M else map fst M @ [k])"
  by (auto simp: TMap_FindOrAdd_def TMap_Contains_def)

lemma distinct_AccumulateLinks:
  "distinct (map fst M) \<Longrightarrow> distinct (map fst (AccumulateLinks Ls M))"
  by (induction Ls arbitrary: M) (auto simp: keys_TMap_Modify keys_TMap_FindOrAdd)

lemma set_keys_TMap_Modify: "fst ` set (TMap_Modify M k f) = fst ` set M"
  using keys_TMap_Modify [of M k f] by (metis set_map)

lemma set_keys_TMap_FindOrAdd: "fst ` set (TMap_FindOrAdd M k v) = insert k (fst ` set M)"
  by (auto simp: TMap_FindOrAdd_def TMap_Contains_def)

lemma keys_AccumulateLinks:
  "fst ` set (AccumulateLinks Ls M) = fst ` set M \<union> AssetId ` set Ls"
  by (induction Ls arbitrary: M) (auto simp: set_keys_TMap_Modify set_keys_TMap_FindOrAdd)

section \<open>Properties of the filter of GetSortedLinks\<close>

lemma drop_ReplaceBadPackage:
  assumes "Index < length ReferenceIds"
  shows "drop Index (ReplaceBadPackage E ReferenceIds Index) =
     (if RedirectorPackage E (PackageName (ReferenceIds ! Index))
      then GetReferencerIds E (PackageName (ReferenceIds ! Index)) else [])
     @ drop (Suc Index) ReferenceIds"
  and "take Index (ReplaceBadPackage E ReferenceIds Index) = take Index ReferenceIds"
  using assms
  by (simp_all add: ReplaceBadPackage_def RedirectorPackage_def TArray_RemoveAt_def TArray_Insert_def Let_def min_def)

lemma ReplaceBadPackage_eq:
  assumes "Index < length ReferenceIds"
  shows "ReplaceBadPackage E ReferenceIds Index =
     take Index ReferenceIds @
     (if RedirectorPackage E (PackageName (ReferenceIds ! Index))
      then GetReferencerIds E (PackageName (ReferenceIds ! Index)) else [])
     @ drop (Suc Index) ReferenceIds"
  using drop_ReplaceBadPackage [OF assms, of E]
  by (metis append_take_drop_id)

lemma FilterLoop_all_kept_aux:
  assumes run: "FilterLoop E0 Ids0 Index0 = Some Result0"
  shows "(\<forall>k \<in> set (take Index0 Ids0). KeptId E0 k) \<longrightarrow> (\<forall>k \<in> set Result0. KeptId E0 k)"
proof (rule FilterLoop.raw_induct
    [where P = "\<lambda>E Ids Index Result.
       (\<forall>k \<in> set (take Index Ids). KeptId E k) \<longrightarrow> (\<forall>k \<in> set Result. KeptId E k)", OF _ run],
    goal_cases)
  case (1 F E ReferenceIds Index Result)
  show ?case
  proof (cases "Index < length ReferenceIds")
    case False
    with 1(2) show ?thesis by simp
  next
    case True
    show ?thesis
    proof (cases "PackageName (ReferenceIds ! Index) \<noteq> NAME_None
            \<and> IsBadPackage E (PackageName (ReferenceIds ! Index))")
      case bad: True
      from 1(2) True bad have "F E (ReplaceBadPackage E ReferenceIds Index) Index = Some Result"
        by (simp split: if_splits)
      from 1(1) [OF this] show ?thesis
        by (simp only: drop_ReplaceBadPackage(2) [OF True])
    next
      case good: False
      from 1(2) True good have "F E ReferenceIds (Suc Index) = Some Result"
        by (simp split: if_splits)
      from 1(1) [OF this]
      have ih: "(\<forall>k \<in> set (take (Suc Index) ReferenceIds). KeptId E k) \<longrightarrow> (\<forall>k \<in> set Result. KeptId E k)" .
      have here: "KeptId E (ReferenceIds ! Index)"
        using good unfolding KeptId_def by blast
      have "set (take (Suc Index) ReferenceIds) = insert (ReferenceIds ! Index) (set (take Index ReferenceIds))"
        using True by (simp add: take_Suc_conv_app_nth)
      with ih here show ?thesis by simp
    qed
  qed
qed

lemma FilterLoop_keeps_aux:
  assumes run: "FilterLoop E0 Ids0 Index0 = Some Result0"
  shows "\<forall>k \<in> set Ids0. KeptId E0 k \<longrightarrow> k \<in> set Result0"
proof (rule FilterLoop.raw_induct
    [where P = "\<lambda>E Ids Index Result. \<forall>k \<in> set Ids. KeptId E k \<longrightarrow> k \<in> set Result", OF _ run],
    goal_cases)
  case (1 F E ReferenceIds Index Result)
  show ?case
  proof (cases "Index < length ReferenceIds")
    case False
    with 1(2) show ?thesis by simp
  next
    case True
    show ?thesis
    proof (cases "PackageName (ReferenceIds ! Index) \<noteq> NAME_None
            \<and> IsBadPackage E (PackageName (ReferenceIds ! Index))")
      case bad: True
      from 1(2) True bad have "F E (ReplaceBadPackage E ReferenceIds Index) Index = Some Result"
        by (simp split: if_splits)
      from 1(1) [OF this]
      have sub: "\<forall>k \<in> set (ReplaceBadPackage E ReferenceIds Index). KeptId E k \<longrightarrow> k \<in> set Result" .
      have unkept: "\<not> KeptId E (ReferenceIds ! Index)"
        using bad by (simp add: KeptId_def)
      have split: "set ReferenceIds =
          set (take Index ReferenceIds) \<union> {ReferenceIds ! Index} \<union> set (drop (Suc Index) ReferenceIds)"
        by (subst id_take_nth_drop [OF True]) simp
      show ?thesis
      proof (intro ballI impI)
        fix k assume k: "k \<in> set ReferenceIds" "KeptId E k"
        with unkept have "k \<noteq> ReferenceIds ! Index" by auto
        with k(1) split have "k \<in> set (take Index ReferenceIds) \<union> set (drop (Suc Index) ReferenceIds)"
          by auto
        then have "k \<in> set (ReplaceBadPackage E ReferenceIds Index)"
          by (subst ReplaceBadPackage_eq [OF True]) auto
        with sub k(2) show "k \<in> set Result" by blast
      qed
    next
      case good: False
      from 1(2) True good have "F E ReferenceIds (Suc Index) = Some Result"
        by (simp split: if_splits)
      from 1(1) [OF this] show ?thesis .
    qed
  qed
qed

lemma GetSortedLinks_Some:
  assumes "GetSortedLinks E Root = Some Links"
  shows "Links = filter (\<lambda>(Key, Cat). KeptId E Key)
                   (ClassifyLinks (LexicalLess E) (GetReferencers E Root Categories))"
proof -
  let ?Out = "ClassifyLinks (LexicalLess E) (GetReferencers E Root Categories)"
  from assms obtain Ids where ids: "FilterLoop E (map fst ?Out) 0 = Some Ids"
    and links: "Links = filter (\<lambda>(Key, Cat). Key \<in> set Ids) ?Out"
    by (auto simp: GetSortedLinks_def Let_def split: option.splits)
  have a: "\<forall>k \<in> set Ids. KeptId E k"
    using FilterLoop_all_kept_aux [OF ids] by simp
  have b: "\<forall>k \<in> set (map fst ?Out). KeptId E k \<longrightarrow> k \<in> set Ids"
    using FilterLoop_keeps_aux [OF ids] .
  have "(case p of (Key, Cat) \<Rightarrow> Key \<in> set Ids) = (case p of (Key, Cat) \<Rightarrow> KeptId E Key)"
    if "p \<in> set ?Out" for p
  proof -
    from that have "fst p \<in> set (map fst ?Out)" by simp
    with a b have "fst p \<in> set Ids \<longleftrightarrow> KeptId E (fst p)" by blast
    then show ?thesis by (simp add: case_prod_beta)
  qed
  then have "filter (\<lambda>(Key, Cat). Key \<in> set Ids) ?Out = filter (\<lambda>(Key, Cat). KeptId E Key) ?Out"
    by (rule filter_cong [OF refl])
  with links show ?thesis by simp
qed

lemma Pending_append: "Pending E rank (xs @ ys) = Pending E rank xs + Pending E rank ys"
  by (simp add: Pending_def)

lemma Pending_Cons:
  "Pending E rank (x # xs) =
     (if KeptId E x then Pending E rank xs else add_mset (rank (PackageName x)) (Pending E rank xs))"
  by (simp add: Pending_def)

lemma FilterLoop_terminates:
  assumes desc: "RedirectsDescend E rank"
  shows "\<exists>Result. FilterLoop E ReferenceIds Index = Some Result"
proof -
  let ?m = "\<lambda>(Ids :: FAssetIdentifier list, i :: nat). (Pending E rank (drop i Ids), length Ids - i)"
  let ?R = "inv_image (mult less_than <*lex*> less_than) ?m"
  have wf: "wf ?R"
    by (intro wf_inv_image wf_lex_prod wf_mult wf_less_than)
  have "\<exists>Result. FilterLoop E (fst p) (snd p) = Some Result" for p
  proof (induction p rule: wf_induct_rule [OF wf])
    case (1 p)
    obtain Ids i where p: "p = (Ids, i)" by (cases p)
    show ?case
    proof (cases "i < length Ids")
      case False
      then show ?thesis by (subst FilterLoop.simps) (simp add: p)
    next
      case True
      then have dr: "drop i Ids = Ids ! i # drop (Suc i) Ids"
        by (simp add: Cons_nth_drop_Suc)
      show ?thesis
      proof (cases "PackageName (Ids ! i) \<noteq> NAME_None \<and> IsBadPackage E (PackageName (Ids ! i))")
        case good: False
        then have kept: "KeptId E (Ids ! i)" unfolding KeptId_def by blast
        have "((Ids, Suc i), p) \<in> ?R"
        proof -
          have "length Ids - Suc i < length Ids - i" using True by arith
          then show ?thesis using kept by (simp add: p dr Pending_Cons)
        qed
        from 1 [OF this] obtain Result where "FilterLoop E Ids (Suc i) = Some Result" by auto
        then have "FilterLoop E Ids i = Some Result"
          using True good by (subst FilterLoop.simps) auto
        then show ?thesis by (simp add: p)
      next
        case bad: True
        then have unkept: "\<not> KeptId E (Ids ! i)" by (simp add: KeptId_def)
        let ?New = "if RedirectorPackage E (PackageName (Ids ! i))
                    then GetReferencerIds E (PackageName (Ids ! i)) else []"
        let ?Ids' = "ReplaceBadPackage E Ids i"
        have dr': "drop i ?Ids' = ?New @ drop (Suc i) Ids"
          using drop_ReplaceBadPackage(1) [OF True] by simp
        have small: "\<forall>k \<in># Pending E rank ?New. \<exists>j \<in># {#rank (PackageName (Ids ! i))#}. (k, j) \<in> less_than"
          using desc bad unfolding RedirectsDescend_def Pending_def by auto
        have "(Pending E rank (drop (Suc i) Ids) + Pending E rank ?New,
               Pending E rank (drop (Suc i) Ids) + {#rank (PackageName (Ids ! i))#}) \<in> mult less_than"
          by (rule one_step_implies_mult [OF _ small]) simp
        then have "(Pending E rank (drop i ?Ids'), Pending E rank (drop i Ids)) \<in> mult less_than"
          using unkept by (simp add: dr dr' Pending_append Pending_Cons add.commute)
        then have "((?Ids', i), p) \<in> ?R"
          by (simp add: p)
        from 1 [OF this] obtain Result where "FilterLoop E ?Ids' i = Some Result" by auto
        then have "FilterLoop E Ids i = Some Result"
          using True bad by (subst FilterLoop.simps) auto
        then show ?thesis by (simp add: p)
      qed
    qed
  qed
  from this [of "(ReferenceIds, Index)"] show ?thesis by simp
qed

section \<open>The merge of categories\<close>

lemma set_SortInsert: "set (SortInsert P x xs) = insert x (set xs)"
  by (induction xs) auto

lemma set_Algo_Sort: "set (Algo_Sort P xs) = set xs"
  by (induction xs) (auto simp: set_SortInsert)

lemma mset_SortInsert: "mset (SortInsert P x xs) = add_mset x (mset xs)"
  by (induction xs) auto

lemma mset_Algo_Sort: "mset (Algo_Sort P xs) = mset xs"
  by (induction xs) (auto simp: mset_SortInsert)

lemma map_of_ClassifyLinks:
  "TMap_Find (ClassifyLinks Less Ls) T =
     (if T \<in> AssetId ` set Ls
      then Some (PinCat (\<exists>L \<in> set Ls. AssetId L = T \<and> IsHard (Properties L))
                        (\<exists>L \<in> set Ls. AssetId L = T \<and> UsedInGame L))
      else None)"
  by (simp add: TMap_Find_def ClassifyLinks_def map_of_AccumulateLinks set_Algo_Sort)

lemma LinkBits_commute: "LinkBits A (LinkBits B c) = LinkBits B (LinkBits A c)"
  by (simp add: LinkBits_def Let_def ac_simps)

lemma LinkBits_idem: "LinkBits A (LinkBits A c) = LinkBits A c"
  by (simp add: LinkBits_def Let_def ac_simps)

text \<open>
  Claim C5. For every target, classifying the records \<open>[A, B]\<close> and the records \<open>[B, A]\<close>
  gives the target the same category, and classifying a record twice gives the same
  category as classifying it once: the accumulation into the map is a bitwise OR, so the
  category of a target depends only on which records are present, not on their order or
  their number.
\<close>

theorem C5_category_merge:
  "(set Ls = set Ls' \<longrightarrow>
        TMap_Find (ClassifyLinks Less Ls) T = TMap_Find (ClassifyLinks Less Ls') T
      \<and> TMap_Find (AccumulateLinks Ls []) T = TMap_Find (AccumulateLinks Ls' []) T)
   \<and> TMap_Find (ClassifyLinks Less [A, B]) T = TMap_Find (ClassifyLinks Less [B, A]) T
   \<and> TMap_Find (ClassifyLinks Less [A, A]) T = TMap_Find (ClassifyLinks Less [A]) T
   \<and> LinkBits A (LinkBits B c) = LinkBits B (LinkBits A c)
   \<and> LinkBits A (LinkBits A c) = LinkBits A c"
proof -
  have ab: "TMap_Find (ClassifyLinks Less [A, B]) T = TMap_Find (ClassifyLinks Less [B, A]) T"
    unfolding map_of_ClassifyLinks by (simp add: insert_commute disj_commute)
  have aa: "TMap_Find (ClassifyLinks Less [A, A]) T = TMap_Find (ClassifyLinks Less [A]) T"
    unfolding map_of_ClassifyLinks by simp
  have gen1: "TMap_Find (ClassifyLinks Less Ls) T = TMap_Find (ClassifyLinks Less Ls') T"
    if "set Ls = set Ls'"
    unfolding map_of_ClassifyLinks using that by simp
  have gen2: "TMap_Find (AccumulateLinks Ls []) T = TMap_Find (AccumulateLinks Ls' []) T"
    if "set Ls = set Ls'"
    unfolding TMap_Find_def map_of_AccumulateLinks using that by simp
  show ?thesis
    using ab aa gen1 gen2 LinkBits_commute [of A B c] LinkBits_idem [of A c] by blast
qed

theorem C5_category_merge_witness:
  "TMap_Find (ClassifyLinks NoOrder [Dep ''T'' Package [Hard], Dep ''T'' Manage []]) (PkgId ''T'')
     = TMap_Find (ClassifyLinks NoOrder [Dep ''T'' Manage [], Dep ''T'' Package [Hard]]) (PkgId ''T'')
   \<and> TMap_Find (ClassifyLinks NoOrder [Dep ''T'' Package [Hard], Dep ''T'' Manage []]) (PkgId ''T'')
     = Some 7"
proof -
  have "TMap_Find (ClassifyLinks NoOrder [Dep ''T'' Package [Hard], Dep ''T'' Manage []]) (PkgId ''T'')
     = Some 7"
    by (simp add: ClassifyLinks_def LinkLess_def CategoryOrder_def NoOrder_def Dep_def PkgId_def
        TMap_Find_def TMap_Modify_def TMap_FindOrAdd_def TMap_Contains_def LinkBits_def IsHard_def cat_defs)
  then show ?thesis
    using C5_category_merge [of "[Dep ''T'' Package [Hard], Dep ''T'' Manage []]"
        "[Dep ''T'' Manage [], Dep ''T'' Package [Hard]]" NoOrder "PkgId ''T''"]
    by simp
qed

section \<open>The order of the sorted records\<close>

lemma LinkLess_lexicographic:
  "LinkLess Less A B =
     (CategoryOrder (Category A) < CategoryOrder (Category B)
      \<or> (Category A = Category B
          \<and> (IsHard (Properties A) \<and> \<not> IsHard (Properties B)
              \<or> (IsHard (Properties A) = IsHard (Properties B)
                  \<and> Less (PackageName (AssetId A)) (PackageName (AssetId B))))))"
  by (cases "Category A"; cases "Category B") (auto simp: LinkLess_def CategoryOrder_def)

lemma CharsLess_asym: "CharsLess x y \<Longrightarrow> \<not> CharsLess y x"
  by (induction x y rule: CharsLess.induct) auto

lemma CharsLess_negtrans: "CharsLess x z \<Longrightarrow> CharsLess x y \<or> CharsLess y z"
proof (induction x z arbitrary: y rule: CharsLess.induct)
  case 1
  then show ?case by simp
next
  case (2 z zs)
  then show ?case by (cases y) auto
next
  case (3 x xs)
  then show ?case by simp
next
  case (4 x xs z zs)
  show ?case
  proof (cases y)
    case Nil
    then show ?thesis by simp
  next
    case (Cons c cs)
    show ?thesis
    proof (cases "of_char x < (of_char z :: nat)")
      case True
      then have "of_char x < (of_char c :: nat) \<or> of_char c < (of_char z :: nat)" by arith
      then show ?thesis using Cons by auto
    next
      case False
      with 4(2) have xz: "x = z" and r: "CharsLess xs zs" by auto
      show ?thesis
      proof (cases "c = x")
        case True
        with 4(1) [OF r, of cs] Cons xz show ?thesis by auto
      next
        case ne: False
        then have "of_char c \<noteq> (of_char x :: nat)" by simp
        then have "of_char x < (of_char c :: nat) \<or> of_char c < (of_char x :: nat)" by arith
        then show ?thesis using Cons xz by auto
      qed
    qed
  qed
qed

lemma AlphabeticalLess_order: "StrictWeakOrder AlphabeticalLess"
  unfolding StrictWeakOrder_def
proof (intro conjI allI impI)
  fix a b assume "AlphabeticalLess a b"
  then show "\<not> AlphabeticalLess b a"
    by (cases a; cases b) (auto simp: AlphabeticalLess_def dest: CharsLess_asym)
next
  fix a b c assume "AlphabeticalLess a c"
  then show "AlphabeticalLess a b \<or> AlphabeticalLess b c"
    by (cases a; cases b; cases c) (auto simp: AlphabeticalLess_def dest: CharsLess_negtrans)
qed

lemma LinkLess_order:
  assumes "StrictWeakOrder Less"
  shows "StrictWeakOrder (LinkLess Less)"
proof -
  from assms have as: "\<And>a b. Less a b \<Longrightarrow> \<not> Less b a"
    and nt: "\<And>a b c. Less a c \<Longrightarrow> Less a b \<or> Less b c"
    unfolding StrictWeakOrder_def by blast+
  show ?thesis
    unfolding StrictWeakOrder_def
  proof (intro conjI allI impI)
    fix A B assume "LinkLess Less A B"
    then show "\<not> LinkLess Less B A"
      unfolding LinkLess_lexicographic using as by auto
  next
    fix A B C assume ac: "LinkLess Less A C"
    show "LinkLess Less A B \<or> LinkLess Less B C"
    proof (cases "CategoryOrder (Category A) < CategoryOrder (Category C)")
      case True
      then have "CategoryOrder (Category A) < CategoryOrder (Category B)
          \<or> CategoryOrder (Category B) < CategoryOrder (Category C)" by arith
      then show ?thesis unfolding LinkLess_lexicographic by blast
    next
      case False
      with ac have c: "Category A = Category C"
        and r: "IsHard (Properties A) \<and> \<not> IsHard (Properties C)
              \<or> (IsHard (Properties A) = IsHard (Properties C)
                  \<and> Less (PackageName (AssetId A)) (PackageName (AssetId C)))"
        unfolding LinkLess_lexicographic by auto
      show ?thesis
      proof (cases "Category B = Category A")
        case ne: False
        then have "CategoryOrder (Category B) \<noteq> CategoryOrder (Category A)"
          by (cases "Category A"; cases "Category B") (simp_all add: CategoryOrder_def)
        then have "CategoryOrder (Category A) < CategoryOrder (Category B)
          \<or> CategoryOrder (Category B) < CategoryOrder (Category C)" using c by auto
        then show ?thesis unfolding LinkLess_lexicographic by blast
      next
        case eq: True
        from r show ?thesis
        proof
          assume "IsHard (Properties A) \<and> \<not> IsHard (Properties C)"
          then show ?thesis unfolding LinkLess_lexicographic using eq c by auto
        next
          assume h: "IsHard (Properties A) = IsHard (Properties C)
                  \<and> Less (PackageName (AssetId A)) (PackageName (AssetId C))"
          from nt [of "PackageName (AssetId A)" "PackageName (AssetId C)" "PackageName (AssetId B)"] h
          have "Less (PackageName (AssetId A)) (PackageName (AssetId B))
              \<or> Less (PackageName (AssetId B)) (PackageName (AssetId C))" by blast
          then show ?thesis unfolding LinkLess_lexicographic using eq c h by auto
        qed
      qed
    qed
  qed
qed

lemma InOrder_sorted_wrt: "InOrder P xs = sorted_wrt (\<lambda>x y. \<not> P y x) xs"
  by (induction xs) auto

lemma InOrder_SortInsert:
  assumes "StrictWeakOrder P" and "InOrder P xs"
  shows "InOrder P (SortInsert P x xs)"
  using assms(2)
proof (induction xs)
  case Nil
  then show ?case by simp
next
  case (Cons y ys)
  from assms(1) have as: "\<And>a b. P a b \<Longrightarrow> \<not> P b a"
    and nt: "\<And>a b c. P a c \<Longrightarrow> P a b \<or> P b c"
    unfolding StrictWeakOrder_def by blast+
  show ?case
  proof (cases "P y x")
    case True
    then have "\<not> P x y" by (rule as)
    then show ?thesis using Cons True by (simp add: set_SortInsert)
  next
    case False
    have "\<not> P z x" if "z \<in> set ys" for z
    proof
      assume "P z x"
      from nt [OF this, of y] False Cons.prems that show False by auto
    qed
    then show ?thesis using Cons.prems False by auto
  qed
qed

lemma InOrder_Algo_Sort: "StrictWeakOrder P \<Longrightarrow> InOrder P (Algo_Sort P xs)"
  by (induction xs) (simp_all add: InOrder_SortInsert)

lemma keys_AccumulateLinks_from:
  "map fst (AccumulateLinks S M)
     = map fst M @ filter (\<lambda>k. k \<notin> set (map fst M)) (map fst (AccumulateLinks S []))"
proof (induction S arbitrary: M)
  case Nil
  then show ?case by simp
next
  case (Cons x xs)
  let ?k = "AssetId x"
  let ?K = "map fst (AccumulateLinks xs [])"
  let ?M1 = "TMap_Modify (TMap_FindOrAdd M ?k LinkEndActive) ?k (LinkBits x)"
  let ?M0 = "TMap_Modify (TMap_FindOrAdd [] ?k LinkEndActive) ?k (LinkBits x)"
  have m1: "map fst ?M1 = (if ?k \<in> set (map fst M) then map fst M else map fst M @ [?k])"
    by (simp add: keys_TMap_Modify keys_TMap_FindOrAdd)
  have m0: "map fst ?M0 = [?k]"
    by (simp add: keys_TMap_Modify keys_TMap_FindOrAdd)
  have l: "map fst (AccumulateLinks (x # xs) M) = map fst ?M1 @ filter (\<lambda>k. k \<notin> set (map fst ?M1)) ?K"
    using Cons [of ?M1] by simp
  have r: "map fst (AccumulateLinks (x # xs) []) = ?k # filter (\<lambda>k. k \<noteq> ?k) ?K"
    using Cons [of ?M0] unfolding m0 by simp
  show ?case
  proof (cases "?k \<in> set (map fst M)")
    case True
    then have "filter (\<lambda>k. k \<notin> set (map fst M)) (filter (\<lambda>k. k \<noteq> ?k) ?K)
        = filter (\<lambda>k. k \<notin> set (map fst M)) ?K"
      by (auto intro: filter_cong)
    then show ?thesis unfolding l r m1 using True by simp
  next
    case False
    then have "filter (\<lambda>k. k \<notin> set (map fst M @ [?k])) ?K
        = filter (\<lambda>k. k \<notin> set (map fst M)) (filter (\<lambda>k. k \<noteq> ?k) ?K)"
      by (auto intro: filter_cong)
    then show ?thesis unfolding l r m1 using False by simp
  qed
qed

lemma keys_AccumulateLinks_Cons:
  "map fst (AccumulateLinks (x # xs) [])
     = AssetId x # filter (\<lambda>k. k \<noteq> AssetId x) (map fst (AccumulateLinks xs []))"
proof -
  let ?M0 = "TMap_Modify (TMap_FindOrAdd [] (AssetId x) LinkEndActive) (AssetId x) (LinkBits x)"
  have m0: "map fst ?M0 = [AssetId x]"
    by (simp add: keys_TMap_Modify keys_TMap_FindOrAdd)
  show ?thesis
    using keys_AccumulateLinks_from [of xs ?M0] unfolding m0 by simp
qed

lemma keys_in_order:
  assumes "InOrder P S"
  shows "sorted_wrt (\<lambda>a b. \<exists>A \<in> set S. AssetId A = a \<and> (\<forall>B \<in> set S. AssetId B = b \<longrightarrow> \<not> P B A))
           (map fst (AccumulateLinks S []))"
  using assms
proof (induction S)
  case Nil
  then show ?case by simp
next
  case (Cons x xs)
  let ?R = "\<lambda>S a b. \<exists>A \<in> set S. AssetId A = a \<and> (\<forall>B \<in> set S. AssetId B = b \<longrightarrow> \<not> P B A)"
  let ?K = "map fst (AccumulateLinks xs [])"
  let ?F = "filter (\<lambda>k. k \<noteq> AssetId x) ?K"
  from Cons.prems have h: "\<forall>y \<in> set xs. \<not> P y x" and t: "InOrder P xs" by simp_all
  have head: "\<forall>b \<in> set ?F. ?R (x # xs) (AssetId x) b"
  proof
    fix b assume "b \<in> set ?F"
    then have ne: "b \<noteq> AssetId x" by simp
    have "\<forall>B \<in> set (x # xs). AssetId B = b \<longrightarrow> \<not> P B x"
      using h ne by auto
    then show "?R (x # xs) (AssetId x) b" by auto
  qed
  have "sorted_wrt (?R xs) ?F"
    using Cons.IH [OF t] by (rule sorted_wrt_filter)
  then have tail: "sorted_wrt (?R (x # xs)) ?F"
  proof (rule sorted_wrt_mono_rel [rotated])
    fix a b assume "a \<in> set ?F" "b \<in> set ?F" and r: "?R xs a b"
    then have ne: "b \<noteq> AssetId x" by simp
    from r obtain A where A: "A \<in> set xs" "AssetId A = a" "\<forall>B \<in> set xs. AssetId B = b \<longrightarrow> \<not> P B A"
      by blast
    have "\<forall>B \<in> set (x # xs). AssetId B = b \<longrightarrow> \<not> P B A"
      using A(3) ne by auto
    with A show "?R (x # xs) a b" by auto
  qed
  show ?case
    unfolding keys_AccumulateLinks_Cons using head tail by simp
qed

lemma keys_ClassifyLinks_in_order:
  assumes "StrictWeakOrder Less"
  shows "sorted_wrt (PlacedBefore Less Ls) (map fst (ClassifyLinks Less Ls))"
proof -
  have "InOrder (LinkLess Less) (Algo_Sort (LinkLess Less) Ls)"
    by (rule InOrder_Algo_Sort [OF LinkLess_order [OF assms]])
  from keys_in_order [OF this] show ?thesis
    unfolding ClassifyLinks_def PlacedBefore_def set_Algo_Sort .
qed

lemma keys_filter_key:
  "map fst (filter (\<lambda>(Key, Cat). P Key) M) = filter P (map fst M)"
  by (induction M) auto

lemma keys_GetSortedLinks_in_order:
  assumes "StrictWeakOrder (LexicalLess E)" and "GetSortedLinks E Root = Some Links"
  shows "sorted_wrt (PlacedBefore (LexicalLess E) (GetReferencers E Root Categories)) (map fst Links)"
  unfolding GetSortedLinks_Some [OF assms(2)] keys_filter_key
  by (rule sorted_wrt_filter [OF keys_ClassifyLinks_in_order [OF assms(1)]])

lemma Alphabet_sorted:
  "Algo_Sort (LinkLess AlphabeticalLess) AlphabetLinks
     = [Dep ''A'' Package [Hard], Dep ''Z'' Package [Hard], Dep ''B'' Package [],
        Dep ''C'' Manage [Direct], Dep ''B'' Manage []]"
  by (simp add: AlphabetLinks_def LinkLess_def CategoryOrder_def IsHard_def Dep_def PkgId_def
      AlphabeticalLess_def)

lemma Alphabet_Classify:
  "ClassifyLinks AlphabeticalLess AlphabetLinks
     = [(PkgId ''A'', 5), (PkgId ''Z'', 5), (PkgId ''B'', 3), (PkgId ''C'', 7)]"
  unfolding ClassifyLinks_def Alphabet_sorted
  by (simp add: Dep_def PkgId_def TMap_Modify_def TMap_FindOrAdd_def TMap_Contains_def LinkBits_def
      IsHard_def cat_defs)

lemma Alphabet_asked: "GetReferencers AlphabetEngine DemoRoot Categories = AlphabetLinks"
  by (simp add: AlphabetEngine_def DemoRoot_def Categories_def AlphabetLinks_def Dep_def)

lemma Alphabet_Filter:
  "FilterLoop AlphabetEngine [PkgId ''A'', PkgId ''Z'', PkgId ''B'', PkgId ''C''] 0
     = Some [PkgId ''A'', PkgId ''Z'', PkgId ''B'', PkgId ''C'']"
  by (simp add: FilterLoop.simps AlphabetEngine_def DemoEngine_def PkgId_def IsBadPackage_def)

lemma Alphabet_GetSortedLinks:
  "GetSortedLinks AlphabetEngine DemoRoot
     = Some [(PkgId ''A'', 5), (PkgId ''Z'', 5), (PkgId ''B'', 3), (PkgId ''C'', 7)]"
proof -
  have l: "LexicalLess AlphabetEngine = AlphabeticalLess"
    by (simp add: AlphabetEngine_def)
  show ?thesis
    by (simp add: GetSortedLinks_def l Alphabet_asked Alphabet_Classify Alphabet_Filter)
qed

text \<open>
  Claim C4. The predicate the classifier sorts with orders two records first by the
  priority of their categories (\<^verbatim>\<open>Package\<close> before \<^verbatim>\<open>Manage\<close> before \<^verbatim>\<open>SearchableName\<close>), then
  the hard record (flag \<^verbatim>\<open>Hard\<close> or \<^verbatim>\<open>Direct\<close>) before the soft one, then by the lexical order
  of the package names. When the order of names is a strict weak order, the classifier goes
  through the records it is given in this order: the list it accumulates is a rearrangement
  of the records in which no record is placed before an earlier one, so the targets stand in
  the classifier's map, and in the edge set \<^verbatim>\<open>GetSortedLinks\<close> returns, in the order of their
  first records. Of the six arrangements of a hard \<^verbatim>\<open>Package\<close> record, a soft \<^verbatim>\<open>Package\<close> record
  and a hard \<^verbatim>\<open>Manage\<close> record only that arrangement is in this order; the sort returns it
  from all six and the classifier accumulates the records in it: the category comes before
  the hardness.
\<close>

theorem C4_sort_order:
  "LinkLess Less A B =
     (CategoryOrder (Category A) < CategoryOrder (Category B)
      \<or> (Category A = Category B
          \<and> (IsHard (Properties A) \<and> \<not> IsHard (Properties B)
              \<or> (IsHard (Properties A) = IsHard (Properties B)
                  \<and> Less (PackageName (AssetId A)) (PackageName (AssetId B))))))
   \<and> CategoryOrder Package < CategoryOrder Manage
   \<and> CategoryOrder Manage < CategoryOrder SearchableName
   \<and> (StrictWeakOrder Less \<longrightarrow>
        mset (Algo_Sort (LinkLess Less) Ls) = mset Ls
        \<and> InOrder (LinkLess Less) (Algo_Sort (LinkLess Less) Ls)
        \<and> ClassifyLinks Less Ls = AccumulateLinks (Algo_Sort (LinkLess Less) Ls) []
        \<and> sorted_wrt (PlacedBefore Less Ls) (map fst (ClassifyLinks Less Ls)))
   \<and> (StrictWeakOrder (LexicalLess E) \<longrightarrow>
        (\<forall>Links. GetSortedLinks E Root = Some Links \<longrightarrow>
           sorted_wrt (PlacedBefore (LexicalLess E) (GetReferencers E Root Categories)) (map fst Links)))
   \<and> (Category PH = Package \<and> IsHard (Properties PH)
        \<and> Category PS = Package \<and> \<not> IsHard (Properties PS)
        \<and> Category MH = Manage \<and> IsHard (Properties MH)
      \<longrightarrow> Algo_Sort (LinkLess Less) [PH, PS, MH] = [PH, PS, MH]
        \<and> Algo_Sort (LinkLess Less) [PH, MH, PS] = [PH, PS, MH]
        \<and> Algo_Sort (LinkLess Less) [PS, PH, MH] = [PH, PS, MH]
        \<and> Algo_Sort (LinkLess Less) [PS, MH, PH] = [PH, PS, MH]
        \<and> Algo_Sort (LinkLess Less) [MH, PH, PS] = [PH, PS, MH]
        \<and> Algo_Sort (LinkLess Less) [MH, PS, PH] = [PH, PS, MH]
        \<and> InOrder (LinkLess Less) [PH, PS, MH]
        \<and> \<not> InOrder (LinkLess Less) [PH, MH, PS]
        \<and> \<not> InOrder (LinkLess Less) [PS, PH, MH]
        \<and> \<not> InOrder (LinkLess Less) [PS, MH, PH]
        \<and> \<not> InOrder (LinkLess Less) [MH, PH, PS]
        \<and> \<not> InOrder (LinkLess Less) [MH, PS, PH]
        \<and> ClassifyLinks Less [PH, PS, MH] = AccumulateLinks [PH, PS, MH] []
        \<and> ClassifyLinks Less [PH, MH, PS] = AccumulateLinks [PH, PS, MH] []
        \<and> ClassifyLinks Less [PS, PH, MH] = AccumulateLinks [PH, PS, MH] []
        \<and> ClassifyLinks Less [PS, MH, PH] = AccumulateLinks [PH, PS, MH] []
        \<and> ClassifyLinks Less [MH, PH, PS] = AccumulateLinks [PH, PS, MH] []
        \<and> ClassifyLinks Less [MH, PS, PH] = AccumulateLinks [PH, PS, MH] [])"
proof (intro conjI impI allI)
  show "LinkLess Less A B =
     (CategoryOrder (Category A) < CategoryOrder (Category B)
      \<or> (Category A = Category B
          \<and> (IsHard (Properties A) \<and> \<not> IsHard (Properties B)
              \<or> (IsHard (Properties A) = IsHard (Properties B)
                  \<and> Less (PackageName (AssetId A)) (PackageName (AssetId B))))))"
    by (rule LinkLess_lexicographic)
  show "CategoryOrder Package < CategoryOrder Manage"
    and "CategoryOrder Manage < CategoryOrder SearchableName"
    by (simp_all add: CategoryOrder_def)
next
  show "mset (Algo_Sort (LinkLess Less) Ls) = mset Ls"
    by (rule mset_Algo_Sort)
  show "ClassifyLinks Less Ls = AccumulateLinks (Algo_Sort (LinkLess Less) Ls) []"
    by (simp add: ClassifyLinks_def)
next
  assume o: "StrictWeakOrder Less"
  show "InOrder (LinkLess Less) (Algo_Sort (LinkLess Less) Ls)"
    by (rule InOrder_Algo_Sort [OF LinkLess_order [OF o]])
  show "sorted_wrt (PlacedBefore Less Ls) (map fst (ClassifyLinks Less Ls))"
    by (rule keys_ClassifyLinks_in_order [OF o])
next
  fix Links
  assume "StrictWeakOrder (LexicalLess E)" and "GetSortedLinks E Root = Some Links"
  then show "sorted_wrt (PlacedBefore (LexicalLess E) (GetReferencers E Root Categories)) (map fst Links)"
    by (rule keys_GetSortedLinks_in_order)
next
  assume h: "Category PH = Package \<and> IsHard (Properties PH)
        \<and> Category PS = Package \<and> \<not> IsHard (Properties PS)
        \<and> Category MH = Manage \<and> IsHard (Properties MH)"
  then have o: "LinkLess Less PH PS" "LinkLess Less PS MH" "LinkLess Less PH MH"
    "\<not> LinkLess Less PS PH" "\<not> LinkLess Less MH PS" "\<not> LinkLess Less MH PH"
    by (auto simp: LinkLess_def CategoryOrder_def)
  show s1: "Algo_Sort (LinkLess Less) [PH, PS, MH] = [PH, PS, MH]" using o by simp
  show s2: "Algo_Sort (LinkLess Less) [PH, MH, PS] = [PH, PS, MH]" using o by simp
  show s3: "Algo_Sort (LinkLess Less) [PS, PH, MH] = [PH, PS, MH]" using o by simp
  show s4: "Algo_Sort (LinkLess Less) [PS, MH, PH] = [PH, PS, MH]" using o by simp
  show s5: "Algo_Sort (LinkLess Less) [MH, PH, PS] = [PH, PS, MH]" using o by simp
  show s6: "Algo_Sort (LinkLess Less) [MH, PS, PH] = [PH, PS, MH]" using o by simp
  show "InOrder (LinkLess Less) [PH, PS, MH]" using o by simp
  show "\<not> InOrder (LinkLess Less) [PH, MH, PS]" using o by simp
  show "\<not> InOrder (LinkLess Less) [PS, PH, MH]" using o by simp
  show "\<not> InOrder (LinkLess Less) [PS, MH, PH]" using o by simp
  show "\<not> InOrder (LinkLess Less) [MH, PH, PS]" using o by simp
  show "\<not> InOrder (LinkLess Less) [MH, PS, PH]" using o by simp
  show "ClassifyLinks Less [PH, PS, MH] = AccumulateLinks [PH, PS, MH] []"
    unfolding ClassifyLinks_def s1 ..
  show "ClassifyLinks Less [PH, MH, PS] = AccumulateLinks [PH, PS, MH] []"
    unfolding ClassifyLinks_def s2 ..
  show "ClassifyLinks Less [PS, PH, MH] = AccumulateLinks [PH, PS, MH] []"
    unfolding ClassifyLinks_def s3 ..
  show "ClassifyLinks Less [PS, MH, PH] = AccumulateLinks [PH, PS, MH] []"
    unfolding ClassifyLinks_def s4 ..
  show "ClassifyLinks Less [MH, PH, PS] = AccumulateLinks [PH, PS, MH] []"
    unfolding ClassifyLinks_def s5 ..
  show "ClassifyLinks Less [MH, PS, PH] = AccumulateLinks [PH, PS, MH] []"
    unfolding ClassifyLinks_def s6 ..
qed

theorem C4_sort_order_witness:
  "StrictWeakOrder AlphabeticalLess
   \<and> Algo_Sort (LinkLess AlphabeticalLess) AlphabetLinks
     = [Dep ''A'' Package [Hard], Dep ''Z'' Package [Hard], Dep ''B'' Package [],
        Dep ''C'' Manage [Direct], Dep ''B'' Manage []]
   \<and> InOrder (LinkLess AlphabeticalLess)
       [Dep ''A'' Package [Hard], Dep ''Z'' Package [Hard], Dep ''B'' Package [],
        Dep ''C'' Manage [Direct], Dep ''B'' Manage []]
   \<and> map fst (ClassifyLinks AlphabeticalLess AlphabetLinks)
     = [PkgId ''A'', PkgId ''Z'', PkgId ''B'', PkgId ''C'']
   \<and> sorted_wrt (PlacedBefore AlphabeticalLess AlphabetLinks)
       [PkgId ''A'', PkgId ''Z'', PkgId ''B'', PkgId ''C'']
   \<and> GetSortedLinks AlphabetEngine DemoRoot
     = Some [(PkgId ''A'', 5), (PkgId ''Z'', 5), (PkgId ''B'', 3), (PkgId ''C'', 7)]
   \<and> sorted_wrt (PlacedBefore AlphabeticalLess AlphabetLinks)
       (map fst [(PkgId ''A'', 5 :: EDependencyPinCategory), (PkgId ''Z'', 5), (PkgId ''B'', 3), (PkgId ''C'', 7)])
   \<and> Algo_Sort (LinkLess AlphabeticalLess) [Dep ''C'' Manage [Direct], Dep ''B'' Package [], Dep ''A'' Package [Hard]]
     = [Dep ''A'' Package [Hard], Dep ''B'' Package [], Dep ''C'' Manage [Direct]]
   \<and> ClassifyLinks AlphabeticalLess [Dep ''C'' Manage [Direct], Dep ''B'' Package [], Dep ''A'' Package [Hard]]
     = [(PkgId ''A'', 5), (PkgId ''B'', 1), (PkgId ''C'', 7)]"
proof -
  let ?PH = "Dep ''A'' Package [Hard]" and ?PS = "Dep ''B'' Package []" and ?MH = "Dep ''C'' Manage [Direct]"
  have l: "LexicalLess AlphabetEngine = AlphabeticalLess"
    by (simp add: AlphabetEngine_def)
  have h: "Category ?PH = Package \<and> IsHard (Properties ?PH)
        \<and> Category ?PS = Package \<and> \<not> IsHard (Properties ?PS)
        \<and> Category ?MH = Manage \<and> IsHard (Properties ?MH)"
    by (simp add: Dep_def IsHard_def)
  have acc: "AccumulateLinks [?PH, ?PS, ?MH] [] = [(PkgId ''A'', 5), (PkgId ''B'', 1), (PkgId ''C'', 7)]"
    by (simp add: Dep_def PkgId_def TMap_Modify_def TMap_FindOrAdd_def TMap_Contains_def LinkBits_def
        IsHard_def cat_defs)
  note inst = C4_sort_order [where Less = AlphabeticalLess and Ls = AlphabetLinks
      and E = AlphabetEngine and Root = DemoRoot and PH = ?PH and PS = ?PS and MH = ?MH]
  from inst AlphabeticalLess_order
  have a: "InOrder (LinkLess AlphabeticalLess) (Algo_Sort (LinkLess AlphabeticalLess) AlphabetLinks)"
    and b: "sorted_wrt (PlacedBefore AlphabeticalLess AlphabetLinks)
              (map fst (ClassifyLinks AlphabeticalLess AlphabetLinks))"
    by blast+
  from inst AlphabeticalLess_order Alphabet_GetSortedLinks
  have c: "sorted_wrt (PlacedBefore AlphabeticalLess AlphabetLinks)
       (map fst [(PkgId ''A'', 5 :: EDependencyPinCategory), (PkgId ''Z'', 5), (PkgId ''B'', 3), (PkgId ''C'', 7)])"
    unfolding l Alphabet_asked by blast
  from inst h
  have d: "Algo_Sort (LinkLess AlphabeticalLess) [?MH, ?PS, ?PH] = [?PH, ?PS, ?MH]"
    and e: "ClassifyLinks AlphabeticalLess [?MH, ?PS, ?PH] = AccumulateLinks [?PH, ?PS, ?MH] []"
    by blast+
  have k: "map fst (ClassifyLinks AlphabeticalLess AlphabetLinks)
     = [PkgId ''A'', PkgId ''Z'', PkgId ''B'', PkgId ''C'']"
    by (simp add: Alphabet_Classify)
  from AlphabeticalLess_order Alphabet_sorted a b c d e k Alphabet_GetSortedLinks show ?thesis
    unfolding acc Alphabet_sorted k by blast
qed

section \<open>Properties of the node-info table\<close>

lemma AddReferenceLinks_append:
  "AddReferenceLinks Root (xs @ ys) Infos = AddReferenceLinks Root ys (AddReferenceLinks Root xs Infos)"
  by (induction xs arbitrary: Infos) auto

lemma TMap_Modify_absent: "k \<notin> fst ` set M \<Longrightarrow> TMap_Modify M k f = M"
  by (induction M) (auto simp: TMap_Modify_def)

lemma TMap_Modify_Cons:
  "TMap_Modify ((k', v) # M) k f = (if k' = k then (k', f v) else (k', v)) # TMap_Modify M k f"
  by (simp add: TMap_Modify_def)

lemma TMap_Modify_append:
  "TMap_Modify (M @ N) k f = TMap_Modify M k f @ TMap_Modify N k f"
  by (simp add: TMap_Modify_def)

lemma keys_LinkedInfos:
  "fst ` set (LinkedInfos Root Links) = insert Root (fst ` set Links)"
  by (force simp: LinkedInfos_def)

lemma keys_LinkedInfos_tail:
  "fst ` set (map (\<lambda>(ChildId, Cat). (ChildId, ChildInfo Root ChildId))
           (filter (\<lambda>(ChildId, Cat). ChildId \<noteq> Root) Links)) = fst ` set Links - {Root}"
  by force

lemma LinkedInfos_step:
  assumes new: "fst x \<notin> fst ` set Links"
  shows "(case TMap_Find (LinkedInfos Root Links) (fst x) of
          None \<Rightarrow> LinkChild Root x (TMap_FindOrAdd (LinkedInfos Root Links) (fst x) (NewNodeInfo (fst x)))
        | Some N \<Rightarrow> if Root \<notin> set (Parents N) then LinkChild Root x (LinkedInfos Root Links)
                    else LinkedInfos Root Links)
         = LinkedInfos Root (Links @ [x])"
proof (cases "fst x = Root")
  case True
  let ?tail = "map (\<lambda>(ChildId, Cat). (ChildId, ChildInfo Root ChildId))
           (filter (\<lambda>(ChildId, Cat). ChildId \<noteq> Root) Links)"
  have notin: "Root \<notin> fst ` set ?tail"
    unfolding keys_LinkedInfos_tail by simp
  have find: "TMap_Find (LinkedInfos Root Links) (fst x) = Some (RootInfo Root Links)"
    using True by (simp add: TMap_Find_def LinkedInfos_def)
  have par: "Parents (RootInfo Root Links) = []"
    using new True by (simp add: RootInfo_def)
  have "LinkChild Root x (LinkedInfos Root Links) = LinkedInfos Root (Links @ [x])"
    using True new notin
    by (cases x) (simp add: LinkChild_def LinkedInfos_def TMap_Modify_Cons TMap_Modify_absent
        RootInfo_def TSet_FindOrAdd_def NewNodeInfo_def)
  then show ?thesis by (simp add: find par)
next
  case False
  let ?tail = "map (\<lambda>(ChildId, Cat). (ChildId, ChildInfo Root ChildId))
           (filter (\<lambda>(ChildId, Cat). ChildId \<noteq> Root) Links)"
  have notin: "Root \<notin> fst ` set ?tail" "fst x \<notin> fst ` set ?tail"
    unfolding keys_LinkedInfos_tail using new by simp_all
  have absent: "fst x \<notin> fst ` set (LinkedInfos Root Links)"
    unfolding keys_LinkedInfos using new False by simp
  then have find: "TMap_Find (LinkedInfos Root Links) (fst x) = None"
    by (simp add: TMap_Find_def map_of_eq_None_iff)
  have add: "TMap_FindOrAdd (LinkedInfos Root Links) (fst x) (NewNodeInfo (fst x))
      = LinkedInfos Root Links @ [(fst x, NewNodeInfo (fst x))]"
    using absent by (simp add: TMap_FindOrAdd_def TMap_Contains_def)
  have "LinkChild Root x (LinkedInfos Root Links @ [(fst x, NewNodeInfo (fst x))])
      = LinkedInfos Root (Links @ [x])"
    using False new notin
    by (cases x) (simp add: LinkChild_def LinkedInfos_def TMap_Modify_Cons TMap_Modify_append
        TMap_Modify_absent RootInfo_def ChildInfo_def TSet_FindOrAdd_def NewNodeInfo_def)
  then show ?thesis by (simp add: find add)
qed

lemma AddReferenceLinks_LinkedInfos:
  assumes "distinct (map fst Links)"
  shows "AddReferenceLinks Root Links [(Root, NewNodeInfo Root)] = LinkedInfos Root Links"
  using assms
proof (induction Links rule: rev_induct)
  case Nil
  show ?case by (simp add: LinkedInfos_def RootInfo_def NewNodeInfo_def)
next
  case (snoc x Links)
  then have new: "fst x \<notin> fst ` set Links" and d: "distinct (map fst Links)"
    by auto
  show ?case
    by (simp add: AddReferenceLinks_append snoc.IH [OF d] LinkedInfos_step [OF new])
qed

section \<open>Properties of the created nodes\<close>

lemma RecursivelyCreateNodes_Inr:
  assumes "RecursivelyCreateNodes V M fuel Infos InAssetId InNodeLoc = Inr Node"
  shows "Identifier Node = InAssetId \<and> NodePos Node = InNodeLoc
     \<and> DependencyPinCategory Node = PassiveName
     \<and> (\<exists>f N. fuel = Suc f \<and> TMap_Find Infos InAssetId = Some N
            \<and> CreateChildNodes V M f Infos InNodeLoc (Children N) 0 = Inr (Referencers Node))"
  using assms by (cases fuel) (auto split: option.splits sum.splits)

lemma CreateChildNodes_done:
  "length Cs \<le> ChildIdx \<Longrightarrow> CreateChildNodes V M fuel Infos Loc Cs ChildIdx = Inr []"
  by (simp add: CreateChildNodes.simps)

lemma CreateChildNodes_Inr:
  assumes "CreateChildNodes V M fuel Infos Loc Cs ChildIdx = Inr Ns"
  shows "length Ns = length Cs - ChildIdx
     \<and> (\<forall>j < length Cs - ChildIdx.
           Identifier (Ns ! j) = fst (Cs ! (ChildIdx + j))
         \<and> NodePos (Ns ! j) = ChildLoc V M Loc (length Cs) (ChildIdx + j)
         \<and> DependencyPinCategory (Ns ! j) = GetName (snd (Cs ! (ChildIdx + j))))"
  using assms
proof (induction "length Cs - ChildIdx" arbitrary: ChildIdx Ns)
  case 0
  then show ?case by (simp add: CreateChildNodes.simps)
next
  case (Suc n)
  then have lt: "ChildIdx < length Cs" by simp
  from Suc.prems lt obtain ChildNode Rest where
    c: "RecursivelyCreateNodes V M fuel Infos (fst (Cs ! ChildIdx))
           (ChildLoc V M Loc (length Cs) ChildIdx) = Inr ChildNode"
    and r: "CreateChildNodes V M fuel Infos Loc Cs (Suc ChildIdx) = Inr Rest"
    and n: "Ns = SetDependencyPinCategory ChildNode (GetName (snd (Cs ! ChildIdx))) # Rest"
    by (subst (asm) CreateChildNodes.simps) (auto split: sum.splits)
  have m: "n = length Cs - Suc ChildIdx" using Suc.hyps(2) by simp
  note ih = Suc.hyps(1) [OF m r]
  note cn = RecursivelyCreateNodes_Inr [OF c]
  show ?case
  proof (intro conjI allI impI)
    show "length Ns = length Cs - ChildIdx"
      using ih lt by (simp add: n)
  next
    fix j assume j: "j < length Cs - ChildIdx"
    show "Identifier (Ns ! j) = fst (Cs ! (ChildIdx + j))"
      using ih cn j by (cases j) (simp_all add: n SetDependencyPinCategory_def)
    show "NodePos (Ns ! j) = ChildLoc V M Loc (length Cs) (ChildIdx + j)"
      using ih cn j by (cases j) (simp_all add: n SetDependencyPinCategory_def)
    show "DependencyPinCategory (Ns ! j) = GetName (snd (Cs ! (ChildIdx + j)))"
      using ih cn j by (cases j) (simp_all add: n SetDependencyPinCategory_def)
  qed
qed

lemma RecursivelyCreateNodes_leaf:
  assumes "TMap_Find Infos k = Some N" "Children N = []"
  shows "RecursivelyCreateNodes V M (Suc f) Infos k Loc = Inr (GraphNode k Loc PassiveName [])"
  using assms by (simp add: CreateChildNodes_done)

lemma CreateChildNodes_leaves:
  assumes "\<forall>c \<in> set Cs. \<exists>N. TMap_Find Infos (fst c) = Some N \<and> Children N = []"
  shows "CreateChildNodes V M (Suc f) Infos Loc Cs ChildIdx
     = Inr (map (LeafNode V M Loc Cs) [ChildIdx..<length Cs])"
proof (induction "length Cs - ChildIdx" arbitrary: ChildIdx)
  case 0
  then show ?case by (simp add: CreateChildNodes_done)
next
  case (Suc n)
  then have lt: "ChildIdx < length Cs" by simp
  then have "Cs ! ChildIdx \<in> set Cs" by simp
  with assms obtain N where N: "TMap_Find Infos (fst (Cs ! ChildIdx)) = Some N" "Children N = []"
    by blast
  have m: "n = length Cs - Suc ChildIdx" using Suc.hyps(2) by simp
  show ?case
    using lt
    by (subst CreateChildNodes.simps)
       (simp add: RecursivelyCreateNodes_leaf [OF N] Suc.hyps(1) [OF m] upt_conv_Cons
          LeafNode_def SetDependencyPinCategory_def del: RecursivelyCreateNodes.simps)
qed

lemma CreateChildNodes_self:
  assumes rec: "\<And>Loc'. isl (RecursivelyCreateNodes V M fuel Infos Root Loc')"
    and "ChildIdx \<le> j" "j < length Cs" "fst (Cs ! j) = Root"
  shows "isl (CreateChildNodes V M fuel Infos Loc Cs ChildIdx)"
  using assms(2-)
proof (induction "j - ChildIdx" arbitrary: ChildIdx)
  case 0
  then have "ChildIdx = j" by simp
  with 0 rec [of "ChildLoc V M Loc (length Cs) j"] show ?case
    by (subst CreateChildNodes.simps) (auto simp: isl_def)
next
  case (Suc n)
  then have "n = j - Suc ChildIdx" "Suc ChildIdx \<le> j" by simp_all
  from Suc.hyps(1) [OF this Suc.prems(2,3)]
  have "isl (CreateChildNodes V M fuel Infos Loc Cs (Suc ChildIdx))" .
  then show ?case
    using Suc.prems
    by (subst CreateChildNodes.simps) (auto simp: isl_def split: sum.splits)
qed

lemma RecursivelyCreateNodes_self:
  assumes "TMap_Find Infos Root = Some N" "Root \<in> fst ` set (Children N)"
  shows "isl (RecursivelyCreateNodes V M fuel Infos Root Loc)"
proof (induction fuel arbitrary: Loc)
  case 0
  show ?case by simp
next
  case (Suc fuel)
  from assms(2) obtain j where j: "j < length (Children N)" "fst (Children N ! j) = Root"
    by (auto simp: in_set_conv_nth)
  have "isl (CreateChildNodes V M fuel Infos Loc (Children N) 0)"
    by (rule CreateChildNodes_self [OF Suc.IH _ j]) simp
  then show ?case using assms(1) by (auto simp: isl_def)
qed

section \<open>Properties of RebuildGraph\<close>

lemma distinct_ClassifyLinks: "distinct (map fst (ClassifyLinks Less Ls))"
  unfolding ClassifyLinks_def by (rule distinct_AccumulateLinks) simp

lemma distinct_GetSortedLinks:
  assumes "GetSortedLinks E Root = Some Links"
  shows "distinct (map fst Links)"
  unfolding GetSortedLinks_Some [OF assms]
  by (rule distinct_map_filter) (rule distinct_ClassifyLinks)

lemma map_of_AttachAssetData:
  "TMap_Find (AttachAssetData E Infos) k =
     map_option (\<lambda>N. N\<lparr>AssetData := TMap_FindRef (GetAssetForPackages E (CollectPackageNames Infos))
                                      (PackageName k) DefaultAssetData\<rparr>)
       (TMap_Find Infos k)"
proof -
  have "map_of (map (\<lambda>(Key, N). (Key, f Key N)) Infos) k = map_option (f k) (map_of Infos k)"
    for f :: "FAssetIdentifier \<Rightarrow> FRefExplorerNodeInfo \<Rightarrow> FRefExplorerNodeInfo"
    by (induction Infos) auto
  then show ?thesis
    by (simp add: AttachAssetData_def TMap_Find_def Let_def)
qed

lemma keys_AttachAssetData: "map fst (AttachAssetData E Infos) = map fst Infos"
  by (simp add: AttachAssetData_def Let_def case_prod_beta comp_def)

lemma Find_LinkedInfos_Root:
  "TMap_Find (LinkedInfos Root Links) Root = Some (RootInfo Root Links)"
  by (simp add: TMap_Find_def LinkedInfos_def)

lemma Find_LinkedInfos_child:
  assumes "k \<in> fst ` set Links" "k \<noteq> Root"
  shows "TMap_Find (LinkedInfos Root Links) k = Some (ChildInfo Root k)"
proof -
  let ?tail = "map (\<lambda>(ChildId, Cat). (ChildId, ChildInfo Root ChildId))
           (filter (\<lambda>(ChildId, Cat). ChildId \<noteq> Root) Links)"
  have "map_of ?tail k = Some (ChildInfo Root k)"
    using assms by (induction Links) auto
  then show ?thesis using assms(2) by (simp add: TMap_Find_def LinkedInfos_def)
qed

lemma BuildNodeInfos_eq:
  assumes "distinct (map fst Links)"
  shows "BuildNodeInfos E Root Links = AttachAssetData E (LinkedInfos Root Links)"
  by (simp add: BuildNodeInfos_def AddReferenceLinks_LinkedInfos [OF assms])

lemma Find_BuildNodeInfos_Root:
  assumes "distinct (map fst Links)"
  shows "\<exists>N. TMap_Find (BuildNodeInfos E Root Links) Root = Some N \<and> Children N = Links
     \<and> Parents N = (if Root \<in> fst ` set Links then [Root] else [])"
  by (simp add: BuildNodeInfos_eq [OF assms] map_of_AttachAssetData Find_LinkedInfos_Root RootInfo_def)

lemma Find_BuildNodeInfos_child:
  assumes "distinct (map fst Links)" "k \<in> fst ` set Links" "k \<noteq> Root"
  shows "\<exists>N. TMap_Find (BuildNodeInfos E Root Links) k = Some N \<and> Children N = []
     \<and> Parents N = [Root]"
  by (simp add: BuildNodeInfos_eq [OF assms(1)] map_of_AttachAssetData
      Find_LinkedInfos_child [OF assms(2,3)] ChildInfo_def NewNodeInfo_def)

lemma RecursivelyCreateNodes_root:
  assumes root: "TMap_Find Infos Root = Some N" "Children N = Links"
    and leaves: "\<forall>c \<in> set Links. \<exists>N'. TMap_Find Infos (fst c) = Some N' \<and> Children N' = []"
  shows "RecursivelyCreateNodes V M (Suc (Suc f)) Infos Root Origin = Inr (RootTree V M Root Origin Links)"
    and "RecursivelyCreateNodes V M fuel Infos Root Origin = Inr Node
           \<Longrightarrow> Node = RootTree V M Root Origin Links"
    and "Links = [] \<Longrightarrow> RecursivelyCreateNodes V M (Suc f) Infos Root Origin
           = Inr (RootTree V M Root Origin Links)"
proof -
  show a: "RecursivelyCreateNodes V M (Suc (Suc f)) Infos Root Origin = Inr (RootTree V M Root Origin Links)"
    for f
    using root by (simp add: CreateChildNodes_leaves [OF leaves] RootTree_def)
  show c: "RecursivelyCreateNodes V M (Suc f) Infos Root Origin = Inr (RootTree V M Root Origin Links)"
    if "Links = []" for f
    using root that by (simp add: CreateChildNodes_done RootTree_def)
  show "Node = RootTree V M Root Origin Links"
    if run: "RecursivelyCreateNodes V M fuel Infos Root Origin = Inr Node"
  proof (cases fuel)
    case 0
    with run show ?thesis by simp
  next
    case (Suc f)
    show ?thesis
    proof (cases f)
      case (Suc f')
      with run a [of f'] \<open>fuel = Suc f\<close> show ?thesis by simp
    next
      case 0
      show ?thesis
      proof (cases "Links = []")
        case True
        with run c [of f] \<open>fuel = Suc f\<close> show ?thesis by simp
      next
        case False
        then have "CreateChildNodes V M 0 Infos Origin Links 0 = Inl OutOfFuel"
          by (subst CreateChildNodes.simps) simp
        with run root 0 \<open>fuel = Suc f\<close> show ?thesis by simp
      qed
    qed
  qed
qed

lemma RebuildGraph_Inr:
  assumes "RebuildGraph V M fuel E G = Inr G'"
  shows "\<exists>Links. GetSortedLinks E (CurrentGraphRootIdentifier G) = Some Links
     \<and> CurrentGraphRootIdentifier G \<notin> fst ` set Links
     \<and> G' = BuiltGraph V M E G Links"
proof -
  let ?Root = "CurrentGraphRootIdentifier G"
  from assms obtain Links RootNode where
    links: "GetSortedLinks E ?Root = Some Links"
    and run: "RecursivelyCreateNodes V M fuel (BuildNodeInfos E ?Root Links) ?Root
                (CurrentGraphRootOrigin G) = Inr RootNode"
    and g: "G' = G\<lparr>RefExplorerNodeInfos := BuildNodeInfos E ?Root Links, Nodes := Some RootNode\<rparr>"
    by (auto simp: RebuildGraph_def Let_def split: option.splits sum.splits)
  note d = distinct_GetSortedLinks [OF links]
  from Find_BuildNodeInfos_Root [OF d, of E ?Root] obtain N where
    N: "TMap_Find (BuildNodeInfos E ?Root Links) ?Root = Some N" "Children N = Links"
    by blast
  have notin: "?Root \<notin> fst ` set Links"
  proof
    assume "?Root \<in> fst ` set Links"
    with N have "isl (RecursivelyCreateNodes V M fuel (BuildNodeInfos E ?Root Links) ?Root
                (CurrentGraphRootOrigin G))"
      by (intro RecursivelyCreateNodes_self [where N = N]) simp_all
    with run show False by simp
  qed
  have leaves: "\<forall>c \<in> set Links. \<exists>N'. TMap_Find (BuildNodeInfos E ?Root Links) (fst c) = Some N'
      \<and> Children N' = []"
  proof
    fix c assume "c \<in> set Links"
    then have "fst c \<in> fst ` set Links" by simp
    then have "fst c \<in> fst ` set Links" "fst c \<noteq> ?Root" using notin by metis+
    from Find_BuildNodeInfos_child [OF d this, of E]
    show "\<exists>N'. TMap_Find (BuildNodeInfos E ?Root Links) (fst c) = Some N' \<and> Children N' = []"
      by blast
  qed
  from RecursivelyCreateNodes_root(2) [OF N leaves run]
  show ?thesis using links notin g by (auto simp: BuiltGraph_def)
qed

lemma RebuildGraph_returns:
  assumes links: "GetSortedLinks E (CurrentGraphRootIdentifier G) = Some Links"
    and notin: "CurrentGraphRootIdentifier G \<notin> fst ` set Links"
    and fuel: "2 \<le> fuel"
  shows "RebuildGraph V M fuel E G = Inr (BuiltGraph V M E G Links)"
proof -
  let ?Root = "CurrentGraphRootIdentifier G"
  note d = distinct_GetSortedLinks [OF links]
  from Find_BuildNodeInfos_Root [OF d, of E ?Root] obtain N where
    N: "TMap_Find (BuildNodeInfos E ?Root Links) ?Root = Some N" "Children N = Links"
    by blast
  have leaves: "\<forall>c \<in> set Links. \<exists>N'. TMap_Find (BuildNodeInfos E ?Root Links) (fst c) = Some N'
      \<and> Children N' = []"
  proof
    fix c assume "c \<in> set Links"
    then have "fst c \<in> fst ` set Links" by simp
    then have "fst c \<in> fst ` set Links" "fst c \<noteq> ?Root" using notin by metis+
    from Find_BuildNodeInfos_child [OF d this, of E]
    show "\<exists>N'. TMap_Find (BuildNodeInfos E ?Root Links) (fst c) = Some N' \<and> Children N' = []"
      by blast
  qed
  from fuel obtain f where f: "fuel = Suc (Suc f)"
    by (metis Suc_le_D numeral_2_eq_2 Suc_le_mono)
  show ?thesis
    unfolding f RebuildGraph_def Let_def links
    by (simp add: RecursivelyCreateNodes_root(1) [OF N leaves] BuiltGraph_def
        del: RecursivelyCreateNodes.simps)
qed

section \<open>The final edge set\<close>

lemma Demo_Classify:
  "ClassifyLinks NoOrder (GetReferencers DemoEngine DemoRoot Categories)
     = [(PkgId ''A'', 5), (PkgId ''T'', 1), (PkgId ''B'', 7)]"
  by (simp add: DemoEngine_def DemoRoot_def Categories_def ClassifyLinks_def LinkLess_def CategoryOrder_def
      NoOrder_def Dep_def PkgId_def TMap_Modify_def TMap_FindOrAdd_def TMap_Contains_def LinkBits_def IsHard_def cat_defs)

lemma Demo_Filter:
  "FilterLoop DemoEngine [PkgId ''A'', PkgId ''T'', PkgId ''B''] 0
     = Some [PkgId ''A'', PkgId ''R1'', PkgId ''R2'', PkgId ''B'']"
  by (simp add: FilterLoop.simps DemoEngine_def PkgId_def IsBadPackage_def ReplaceBadPackage_def
      TArray_RemoveAt_def TArray_Insert_def)

lemma PkgId_eq: "PkgId a = PkgId b \<longleftrightarrow> a = b"
  by (simp add: PkgId_def)

lemma Demo_LexicalLess: "LexicalLess DemoEngine = NoOrder"
  by (simp add: DemoEngine_def)

lemma Demo_GetSortedLinks:
  "GetSortedLinks DemoEngine DemoRoot = Some [(PkgId ''A'', 5), (PkgId ''B'', 7)]"
  by (simp add: GetSortedLinks_def Demo_LexicalLess Demo_Classify Demo_Filter PkgId_eq)

lemma Demo_Descend: "RedirectsDescend DemoEngine (\<lambda>Pkg. 0)"
  by (simp add: RedirectsDescend_def DemoEngine_def KeptId_def IsBadPackage_def PkgId_def)

text \<open>On a cycle of redirectors the filter never returns: each pass removes \<open>T\<close> and
  puts \<open>T\<close> back at the same index.\<close>

lemma Cycle_step: "ReplaceBadPackage CycleEngine [PkgId ''T''] 0 = [PkgId ''T'']"
  by (simp add: ReplaceBadPackage_def CycleEngine_def PkgId_def TArray_RemoveAt_def
      TArray_Insert_def)

lemma Cycle_bad: "PackageName (PkgId ''T'') \<noteq> NAME_None \<and> IsBadPackage CycleEngine (PackageName (PkgId ''T''))"
  by (simp add: IsBadPackage_def CycleEngine_def PkgId_def)

lemma FilterLoop_cycle: "FilterLoop CycleEngine [PkgId ''T''] 0 = None"
proof -
  have "\<forall>E Ids i y. FilterLoop E Ids i = Some y \<longrightarrow>
          \<not> (E = CycleEngine \<and> Ids = [PkgId ''T''] \<and> i = 0)"
  proof (rule FilterLoop.fixp_induct, goal_cases)
    case 1
    have eq: "(\<lambda>F. \<forall>E Ids i y. curry (curry F) E Ids i = Some y \<longrightarrow>
                  \<not> (E = CycleEngine \<and> Ids = [PkgId ''T''] \<and> i = 0))
            = (\<lambda>F. \<forall>x y. F x = Some y \<longrightarrow> x \<noteq> ((CycleEngine, [PkgId ''T'']), 0))"
      by (auto simp: fun_eq_iff)
    show ?case
      unfolding eq by (rule option_admissible)
  next
    case 2
    show ?case by simp
  next
    case (3 f)
    show ?case
    proof (intro allI impI)
      fix E Ids i y
      assume run: "(if i < length Ids
           then if PackageName (Ids ! i) \<noteq> NAME_None \<and> IsBadPackage E (PackageName (Ids ! i))
                then f E (ReplaceBadPackage E Ids i) i
                else f E Ids (Suc i)
           else Some Ids) = Some y"
      show "\<not> (E = CycleEngine \<and> Ids = [PkgId ''T''] \<and> i = 0)"
      proof
        assume eq: "E = CycleEngine \<and> Ids = [PkgId ''T''] \<and> i = 0"
        from run eq Cycle_bad Cycle_step have "f CycleEngine [PkgId ''T''] 0 = Some y"
          by simp
        with 3 show False by blast
      qed
    qed
  qed
  then show ?thesis by (cases "FilterLoop CycleEngine [PkgId ''T''] 0") auto
qed

lemma Cycle_Classify:
  "map fst (ClassifyLinks (LexicalLess CycleEngine) (GetReferencers CycleEngine DemoRoot Categories))
     = [PkgId ''T'']"
  by (simp add: CycleEngine_def DemoRoot_def Categories_def ClassifyLinks_def Dep_def PkgId_def
      TMap_Modify_def TMap_FindOrAdd_def TMap_Contains_def)

lemma GetSortedLinks_cycle: "GetSortedLinks CycleEngine DemoRoot = None"
  by (simp add: GetSortedLinks_def Cycle_Classify FilterLoop_cycle)

lemma keys_ClassifyLinks:
  "fst ` set (ClassifyLinks Less Ls) = AssetId ` set Ls"
  by (simp add: ClassifyLinks_def keys_AccumulateLinks set_Algo_Sort)

lemma GetSortedLinks_terminates:
  assumes "RedirectsDescend E rank"
  shows "GetSortedLinks E Root \<noteq> None"
proof -
  from FilterLoop_terminates [OF assms]
  obtain Ids where "FilterLoop E (map fst (ClassifyLinks (LexicalLess E) (GetReferencers E Root Categories))) 0 = Some Ids"
    by blast
  then show ?thesis by (simp add: GetSortedLinks_def Let_def)
qed

lemma keys_GetSortedLinks:
  assumes "GetSortedLinks E Root = Some Links"
  shows "T \<in> fst ` set Links \<longleftrightarrow> T \<in> AssetId ` set (GetReferencers E Root Categories) \<and> KeptId E T"
proof -
  have "fst ` set (filter (\<lambda>(Key, Cat). KeptId E Key) M) = {k \<in> fst ` set M. KeptId E k}"
    for M :: "(FAssetIdentifier \<times> EDependencyPinCategory) list"
    by force
  then show ?thesis
    unfolding GetSortedLinks_Some [OF assms] by (simp add: keys_ClassifyLinks)
qed

text \<open>
  Claim C2, as stated, fails in its second half. The root of the concrete registry has the
  referencers \<open>A\<close>, \<open>T\<close> and \<open>B\<close>; \<open>T\<close> is a redirector without package data whose own
  referencers are \<open>R1\<close> and \<open>R2\<close>. The final edge set is \<open>A\<close>, \<open>B\<close>: \<open>T\<close> is gone, and
  \<open>R1\<close> and \<open>R2\<close> are not in its place.
\<close>

theorem C2_counterexample:
  "GetSortedLinks DemoEngine DemoRoot = Some [(PkgId ''A'', 5), (PkgId ''B'', 7)]
   \<and> PkgId ''T'' \<in> fst ` set (ClassifyLinks (LexicalLess DemoEngine) (GetReferencers DemoEngine DemoRoot Categories))
   \<and> GetAssetPackageDataCopy DemoEngine (PackageName (PkgId ''T'')) = None
   \<and> RedirectorPackage DemoEngine (PackageName (PkgId ''T''))
   \<and> GetReferencerIds DemoEngine (PackageName (PkgId ''T'')) = [PkgId ''R1'', PkgId ''R2'']
   \<and> PkgId ''R1'' \<notin> fst ` set [(PkgId ''A'', 5 :: EDependencyPinCategory), (PkgId ''B'', 7)]
   \<and> PkgId ''R2'' \<notin> fst ` set [(PkgId ''A'', 5 :: EDependencyPinCategory), (PkgId ''B'', 7)]"
  by (simp add: Demo_GetSortedLinks Demo_LexicalLess Demo_Classify PkgId_eq)
     (simp add: DemoEngine_def PkgId_def RedirectorPackage_def)

text \<open>
  Claim C2, amended. Whenever \<^verbatim>\<open>GetSortedLinks\<close> returns, the final edge set is the
  classified edge set without the targets that name a package whose data cannot be read or
  has a negative size on disk; a target that names no package stays. No target is added:
  the referencers of a redirector are put into the working list of identifiers only, so
  they are in the final set only when they are classified targets of the root themselves.
  The filter returns when no chain of redirectors comes back to itself.
\<close>

theorem C2_filter_result:
  "(\<forall>Links. GetSortedLinks E Root = Some Links \<longrightarrow>
        Links = filter (\<lambda>(Key, Cat). KeptId E Key)
                  (ClassifyLinks (LexicalLess E) (GetReferencers E Root Categories))
      \<and> (\<forall>T. T \<in> fst ` set Links
              \<longleftrightarrow> T \<in> AssetId ` set (GetReferencers E Root Categories)
                  \<and> (PackageName T = NAME_None
                      \<or> (\<exists>D. GetAssetPackageDataCopy E (PackageName T) = Some D \<and> 0 \<le> DiskSize D))))
   \<and> (RedirectsDescend E rank \<longrightarrow> GetSortedLinks E Root \<noteq> None)"
proof (intro conjI allI impI)
  fix Links assume l: "GetSortedLinks E Root = Some Links"
  show "Links = filter (\<lambda>(Key, Cat). KeptId E Key)
                  (ClassifyLinks (LexicalLess E) (GetReferencers E Root Categories))"
    by (rule GetSortedLinks_Some [OF l])
  fix T
  have "KeptId E T \<longleftrightarrow> PackageName T = NAME_None
      \<or> (\<exists>D. GetAssetPackageDataCopy E (PackageName T) = Some D \<and> 0 \<le> DiskSize D)"
    by (auto simp: KeptId_def IsBadPackage_def split: option.splits)
  then show "T \<in> fst ` set Links
              \<longleftrightarrow> T \<in> AssetId ` set (GetReferencers E Root Categories)
                  \<and> (PackageName T = NAME_None
                      \<or> (\<exists>D. GetAssetPackageDataCopy E (PackageName T) = Some D \<and> 0 \<le> DiskSize D))"
    using keys_GetSortedLinks [OF l, of T] by simp
next
  assume "RedirectsDescend E rank"
  then show "GetSortedLinks E Root \<noteq> None" by (rule GetSortedLinks_terminates)
qed

theorem C2_filter_result_witness:
  "RedirectsDescend DemoEngine (\<lambda>Pkg. 0)
   \<and> (\<exists>Links. GetSortedLinks DemoEngine DemoRoot = Some Links
         \<and> PkgId ''A'' \<in> fst ` set Links \<and> PkgId ''T'' \<notin> fst ` set Links
         \<and> PkgId ''R1'' \<notin> fst ` set Links)"
proof -
  from C2_filter_result [of DemoEngine DemoRoot "\<lambda>Pkg. 0"] Demo_Descend
  obtain Links where l: "GetSortedLinks DemoEngine DemoRoot = Some Links"
    by blast
  with C2_filter_result [of DemoEngine DemoRoot "\<lambda>Pkg. 0"]
  have k: "\<And>T. T \<in> fst ` set Links
              \<longleftrightarrow> T \<in> AssetId ` set (GetReferencers DemoEngine DemoRoot Categories)
                  \<and> (PackageName T = NAME_None
                      \<or> (\<exists>D. GetAssetPackageDataCopy DemoEngine (PackageName T) = Some D \<and> 0 \<le> DiskSize D))"
    by blast
  have "PkgId ''A'' \<in> fst ` set Links" "PkgId ''T'' \<notin> fst ` set Links"
    "PkgId ''R1'' \<notin> fst ` set Links"
    unfolding k by (simp_all add: DemoEngine_def DemoRoot_def Categories_def PkgId_def Dep_def)
  with l Demo_Descend show ?thesis by blast
qed

section \<open>The categories the registry is asked for\<close>

lemma map_of_filter_key:
  "map_of (filter (\<lambda>(Key, Cat). P Key) M) T = (if P T then map_of M T else None)"
  by (induction M) auto

lemma Find_GetSortedLinks:
  assumes "GetSortedLinks E Root = Some Links"
  shows "TMap_Find Links T =
           (if KeptId E T
            then TMap_Find (ClassifyLinks (LexicalLess E) (GetReferencers E Root Categories)) T
            else None)"
  unfolding GetSortedLinks_Some [OF assms] TMap_Find_def by (rule map_of_filter_key)

lemma Searchable_all:
  "GetReferencers SearchableEngine DemoRoot UNIV
     = [Dep ''S'' SearchableName [], Dep ''M'' Manage [], Dep ''P'' Package []]"
  by (simp add: SearchableEngine_def DemoRoot_def)

lemma Searchable_asked:
  "GetReferencers SearchableEngine DemoRoot Categories = [Dep ''M'' Manage [], Dep ''P'' Package []]"
  by (simp add: SearchableEngine_def DemoRoot_def Categories_def Dep_def)

lemma Searchable_Classify:
  "ClassifyLinks (LexicalLess SearchableEngine) (GetReferencers SearchableEngine DemoRoot Categories)
     = [(PkgId ''P'', LinkEndActive OR LinkTypeNone), (PkgId ''M'', LinkEndActive OR LinkTypeUsedInGame)]"
  unfolding Searchable_asked
  by (simp add: SearchableEngine_def DemoEngine_def ClassifyLinks_def LinkLess_def CategoryOrder_def
      NoOrder_def Dep_def PkgId_def TMap_Modify_def TMap_FindOrAdd_def TMap_Contains_def LinkBits_def
      IsHard_def cat_defs)

lemma Searchable_Filter:
  "FilterLoop SearchableEngine [PkgId ''P'', PkgId ''M''] 0 = Some [PkgId ''P'', PkgId ''M'']"
  by (simp add: FilterLoop.simps SearchableEngine_def DemoEngine_def PkgId_def IsBadPackage_def)

lemma Searchable_GetSortedLinks:
  "GetSortedLinks SearchableEngine DemoRoot
     = Some [(PkgId ''P'', LinkEndActive OR LinkTypeNone), (PkgId ''M'', LinkEndActive OR LinkTypeUsedInGame)]"
  by (simp add: GetSortedLinks_def Searchable_Classify Searchable_Filter PkgId_eq)

text \<open>
  Claim C6, as stated, fails. \<^verbatim>\<open>GetSortedLinks\<close> asks the registry for the records of the
  categories \<^verbatim>\<open>Package\<close> and \<^verbatim>\<open>Manage\<close> only. In the concrete registry the target \<open>S\<close> is
  reachable only by a record of category \<^verbatim>\<open>SearchableName\<close> without a flag: it is not
  classified \<^verbatim>\<open>LinkEndActive | LinkTypeNone\<close>, it gets no category at all and is not in the
  edge set.
\<close>

theorem C6_counterexample:
  "filter (\<lambda>L. AssetId L = PkgId ''S'') (GetReferencers SearchableEngine DemoRoot UNIV)
     = [Dep ''S'' SearchableName []]
   \<and> GetSortedLinks SearchableEngine DemoRoot
     = Some [(PkgId ''P'', LinkEndActive OR LinkTypeNone), (PkgId ''M'', LinkEndActive OR LinkTypeUsedInGame)]
   \<and> TMap_Find [(PkgId ''P'', LinkEndActive OR LinkTypeNone), (PkgId ''M'', LinkEndActive OR LinkTypeUsedInGame)]
        (PkgId ''S'') = None
   \<and> TMap_Find [(PkgId ''P'', LinkEndActive OR LinkTypeNone), (PkgId ''M'', LinkEndActive OR LinkTypeUsedInGame)]
        (PkgId ''S'') \<noteq> Some (LinkEndActive OR LinkTypeNone)"
  by (simp add: Searchable_all Searchable_GetSortedLinks TMap_Find_def PkgId_eq) (simp add: Dep_def PkgId_def)

text \<open>
  Claim C6, amended. The registry answers a query with its records of the categories asked
  for. Then every record that is classified is of category \<^verbatim>\<open>Package\<close> or \<^verbatim>\<open>Manage\<close>, and a
  target reachable only by records of category \<^verbatim>\<open>SearchableName\<close> gets no category: it is
  neither in the classifier's map nor in the edge set. A target that is classified and none
  of whose records carries the flag \<^verbatim>\<open>Hard\<close>, \<^verbatim>\<open>Direct\<close> or \<^verbatim>\<open>Game\<close> gets
  \<^verbatim>\<open>LinkEndActive | LinkTypeNone\<close> (soft, editor-only) when all its records are of category
  \<^verbatim>\<open>Package\<close>, and \<^verbatim>\<open>LinkEndActive | LinkTypeUsedInGame\<close> when one is of category \<^verbatim>\<open>Manage\<close>; the
  edge set reports that category if the package filter keeps the target.
\<close>

theorem C6_searchable_name_only:
  assumes honours: "\<forall>InCategories. GetReferencers E Root InCategories
                      = filter (\<lambda>L. Category L \<in> InCategories) (GetReferencers E Root UNIV)"
  shows "(\<forall>L \<in> set (GetReferencers E Root Categories). Category L = Package \<or> Category L = Manage)
    \<and> ((\<forall>L \<in> set (GetReferencers E Root UNIV). AssetId L = T \<longrightarrow> Category L = SearchableName)
         \<longrightarrow> TMap_Find (ClassifyLinks (LexicalLess E) (GetReferencers E Root Categories)) T = None
           \<and> (\<forall>Links. GetSortedLinks E Root = Some Links \<longrightarrow> TMap_Find Links T = None))
    \<and> (T \<in> AssetId ` set (GetReferencers E Root Categories)
        \<and> (\<forall>L \<in> set (GetReferencers E Root Categories).
              AssetId L = T \<longrightarrow> \<not> IsHard (Properties L) \<and> Game \<notin> Properties L)
         \<longrightarrow> TMap_Find (ClassifyLinks (LexicalLess E) (GetReferencers E Root Categories)) T
               = Some (if \<exists>L \<in> set (GetReferencers E Root UNIV). AssetId L = T \<and> Category L = Manage
                       then LinkEndActive OR LinkTypeUsedInGame else LinkEndActive OR LinkTypeNone)
           \<and> (\<forall>Links. GetSortedLinks E Root = Some Links \<and> KeptId E T \<longrightarrow>
                 TMap_Find Links T
                   = Some (if \<exists>L \<in> set (GetReferencers E Root UNIV). AssetId L = T \<and> Category L = Manage
                           then LinkEndActive OR LinkTypeUsedInGame else LinkEndActive OR LinkTypeNone)))"
proof -
  let ?All = "GetReferencers E Root UNIV"
  let ?Asked = "GetReferencers E Root Categories"
  let ?Out = "ClassifyLinks (LexicalLess E) ?Asked"
  have asked: "set ?Asked = {L \<in> set ?All. Category L = Package \<or> Category L = Manage}"
    by (subst honours [rule_format, of Categories]) (auto simp: Categories_def)
  have one: "\<forall>L \<in> set ?Asked. Category L = Package \<or> Category L = Manage"
    using asked by blast
  have two: "TMap_Find ?Out T = None
      \<and> (\<forall>Links. GetSortedLinks E Root = Some Links \<longrightarrow> TMap_Find Links T = None)"
    if only: "\<forall>L \<in> set ?All. AssetId L = T \<longrightarrow> Category L = SearchableName"
  proof -
    have "T \<notin> AssetId ` set ?Asked"
      using only asked by auto
    then have none: "TMap_Find ?Out T = None"
      by (simp add: map_of_ClassifyLinks)
    then show ?thesis
      by (simp add: Find_GetSortedLinks)
  qed
  have three: "TMap_Find ?Out T
               = Some (if \<exists>L \<in> set ?All. AssetId L = T \<and> Category L = Manage
                       then LinkEndActive OR LinkTypeUsedInGame else LinkEndActive OR LinkTypeNone)
           \<and> (\<forall>Links. GetSortedLinks E Root = Some Links \<and> KeptId E T \<longrightarrow>
                 TMap_Find Links T
                   = Some (if \<exists>L \<in> set ?All. AssetId L = T \<and> Category L = Manage
                           then LinkEndActive OR LinkTypeUsedInGame else LinkEndActive OR LinkTypeNone))"
    if cl: "T \<in> AssetId ` set ?Asked"
      and soft: "\<forall>L \<in> set ?Asked. AssetId L = T \<longrightarrow> \<not> IsHard (Properties L) \<and> Game \<notin> Properties L"
  proof -
    have h: "(\<exists>L \<in> set ?Asked. AssetId L = T \<and> IsHard (Properties L)) = False"
      using soft by blast
    have g: "(\<exists>L \<in> set ?Asked. AssetId L = T \<and> UsedInGame L)
               = (\<exists>L \<in> set ?All. AssetId L = T \<and> Category L = Manage)"
      using soft asked by (auto simp: UsedInGame_def)
    have pc: "PinCat False b =
        (if b then LinkEndActive OR LinkTypeUsedInGame else LinkEndActive OR LinkTypeNone)" for b
      by (simp add: PinCat_def LinkTypeNone_def)
    have eq: "TMap_Find ?Out T
               = Some (if \<exists>L \<in> set ?All. AssetId L = T \<and> Category L = Manage
                       then LinkEndActive OR LinkTypeUsedInGame else LinkEndActive OR LinkTypeNone)"
      unfolding map_of_ClassifyLinks h g pc if_P [OF cl] ..
    have "TMap_Find Links T = TMap_Find ?Out T"
      if "GetSortedLinks E Root = Some Links \<and> KeptId E T" for Links
      using that Find_GetSortedLinks [of E Root Links T] by simp
    then show ?thesis
      unfolding eq by blast
  qed
  from one two three show ?thesis by blast
qed

theorem C6_searchable_name_only_witness:
  "GetReferencers SearchableEngine DemoRoot UNIV
     = [Dep ''S'' SearchableName [], Dep ''M'' Manage [], Dep ''P'' Package []]
   \<and> TMap_Find (ClassifyLinks (LexicalLess SearchableEngine)
                  (GetReferencers SearchableEngine DemoRoot Categories)) (PkgId ''S'') = None
   \<and> TMap_Find (ClassifyLinks (LexicalLess SearchableEngine)
                  (GetReferencers SearchableEngine DemoRoot Categories)) (PkgId ''M'')
       = Some (LinkEndActive OR LinkTypeUsedInGame)
   \<and> TMap_Find (ClassifyLinks (LexicalLess SearchableEngine)
                  (GetReferencers SearchableEngine DemoRoot Categories)) (PkgId ''P'')
       = Some (LinkEndActive OR LinkTypeNone)"
proof -
  have honours: "\<forall>InCategories. GetReferencers SearchableEngine DemoRoot InCategories
         = filter (\<lambda>L. Category L \<in> InCategories) (GetReferencers SearchableEngine DemoRoot UNIV)"
    by (simp add: SearchableEngine_def DemoRoot_def)
  have s: "\<forall>L \<in> set (GetReferencers SearchableEngine DemoRoot UNIV).
             AssetId L = PkgId ''S'' \<longrightarrow> Category L = SearchableName"
    unfolding Searchable_all by (simp add: Dep_def PkgId_eq)
  have m: "PkgId ''M'' \<in> AssetId ` set (GetReferencers SearchableEngine DemoRoot Categories)"
    "PkgId ''P'' \<in> AssetId ` set (GetReferencers SearchableEngine DemoRoot Categories)"
    "\<forall>L \<in> set (GetReferencers SearchableEngine DemoRoot Categories).
       AssetId L = T \<longrightarrow> \<not> IsHard (Properties L) \<and> Game \<notin> Properties L" for T
    unfolding Searchable_asked by (simp_all add: Dep_def IsHard_def)
  have em: "(\<exists>L \<in> set (GetReferencers SearchableEngine DemoRoot UNIV).
               AssetId L = PkgId ''M'' \<and> Category L = Manage) = True"
    and ep: "(\<exists>L \<in> set (GetReferencers SearchableEngine DemoRoot UNIV).
               AssetId L = PkgId ''P'' \<and> Category L = Manage) = False"
    unfolding Searchable_all by (simp_all add: Dep_def PkgId_eq)
  from C6_searchable_name_only [OF honours, of "PkgId ''S''"] s
    C6_searchable_name_only [OF honours, of "PkgId ''M''"]
    C6_searchable_name_only [OF honours, of "PkgId ''P''"] m
  show ?thesis
    unfolding em ep by (simp add: Searchable_all)
qed

section \<open>The built graph\<close>

lemma PinCat_values:
  "PinCat False False = 1" "PinCat False True = 3" "PinCat True False = 5" "PinCat True True = 7"
  by (simp_all add: PinCat_def cat_defs)

lemma PinCat_active:
  "PinCat h g AND LinkEndMask = LinkEndActive"
  "GetName (PinCat h g) \<noteq> NamePassive"
  "GetColor (PinCat h g) \<noteq> ColorPassive"
  "ParseDependencyPinCategory (GetName (PinCat h g)) = PinCat h g"
proof -
  show "PinCat h g AND LinkEndMask = LinkEndActive"
    by (cases h; cases g) (simp_all add: PinCat_values cat_defs)
  show "GetName (PinCat h g) \<noteq> NamePassive"
    by (cases h; cases g) (simp_all add: PinCat_values cat_defs GetName_def name_defs)
  show "GetColor (PinCat h g) \<noteq> ColorPassive"
    by (cases h; cases g) (simp_all add: PinCat_values cat_defs GetColor_def)
  show "ParseDependencyPinCategory (GetName (PinCat h g)) = PinCat h g"
    by (cases h; cases g)
       (simp_all add: PinCat_values cat_defs GetName_def ParseDependencyPinCategory_def name_defs)
qed


lemma PassiveName_eq: "PassiveName = NamePassive"
  by (simp add: PassiveName_def GetName_def cat_defs)

lemma wire_PinCat:
  "DetermineWiringStyle (GetName (PinCat h g)) InputPinCategory = GetColor (PinCat h g)"
proof -
  have "PinCat h g AND LinkEndActive \<noteq> 0"
    using PinCat_active(1) [of h g] by (simp add: cat_defs)
  then show ?thesis
    by (simp add: DetermineWiringStyle_def Let_def PinCat_active(4))
qed

lemma ClassifyLinks_entry:
  assumes "(K, C) \<in> set (ClassifyLinks Less Ls)"
  shows "\<exists>h g. C = PinCat h g"
proof -
  from assms have "map_of (ClassifyLinks Less Ls) K = Some C"
    by (intro map_of_is_SomeI distinct_ClassifyLinks)
  then show ?thesis
    using map_of_ClassifyLinks [of Less Ls K]
    by (auto simp: TMap_Find_def split: if_splits)
qed

lemma GetSortedLinks_entry:
  assumes "GetSortedLinks E Root = Some Links" "(K, C) \<in> set Links"
  shows "\<exists>h g. C = PinCat h g"
  using assms(2) unfolding GetSortedLinks_Some [OF assms(1)]
  by (auto dest: ClassifyLinks_entry)

lemma Edges_RootTree:
  "Edges (RootTree V M Root Origin Links) = map (\<lambda>c. (GetName (snd c), PassiveName)) Links"
proof -
  have "map (\<lambda>i. (GetName (snd (Links ! i)), PassiveName)) [0..<length Links]
      = map (\<lambda>c. (GetName (snd c), PassiveName)) Links"
    by (rule nth_equalityI) simp_all
  moreover have "concat (map (\<lambda>i. Edges (LeafNode V M Origin Links i)) [0..<length Links]) = []"
    by (simp add: LeafNode_def)
  ultimately show ?thesis
    by (simp add: RootTree_def LeafNode_def comp_def)
qed

lemma Demo_Rebuild:
  "RebuildGraph V M 2 DemoEngine DemoGraph
     = Inr (BuiltGraph V M DemoEngine DemoGraph [(PkgId ''A'', 5), (PkgId ''B'', 7)])"
proof (rule RebuildGraph_returns)
  show "GetSortedLinks DemoEngine (CurrentGraphRootIdentifier DemoGraph)
      = Some [(PkgId ''A'', 5), (PkgId ''B'', 7)]"
    by (simp add: DemoGraph_def Demo_GetSortedLinks)
  show "CurrentGraphRootIdentifier DemoGraph
      \<notin> fst ` set [(PkgId ''A'', 5 :: EDependencyPinCategory), (PkgId ''B'', 7)]"
    by (simp add: DemoGraph_def DemoRoot_def PkgId_eq)
qed simp

lemma entries_AttachAssetData:
  assumes "(K, N) \<in> set (AttachAssetData E Infos)"
  shows "\<exists>N0. (K, N0) \<in> set Infos \<and> Children N = Children N0 \<and> Parents N = Parents N0"
  using assms by (auto simp: AttachAssetData_def Let_def)

lemma entries_LinkedInfos:
  assumes "(K, N) \<in> set (LinkedInfos Root Links)" "K \<noteq> Root"
  shows "N = ChildInfo Root K"
  using assms by (auto simp: LinkedInfos_def)

lemma keys_BuildNodeInfos:
  assumes "distinct (map fst Links)" "Root \<notin> fst ` set Links"
  shows "map fst (BuildNodeInfos E Root Links) = Root # map fst Links"
proof -
  have "filter (\<lambda>(ChildId, Cat). ChildId \<noteq> Root) Links = Links"
    using assms(2) by (intro filter_True) force
  then show ?thesis
    by (simp add: BuildNodeInfos_eq [OF assms(1)] keys_AttachAssetData LinkedInfos_def
        case_prod_beta comp_def)
qed

lemma Depth_RootTree: "Depth (RootTree V M Root Origin Links) \<le> 1"
proof (cases "Links = []")
  case True
  then show ?thesis by (simp add: RootTree_def)
next
  case False
  then have z: "0 < length Links" by simp
  have "Depth ` set (map (LeafNode V M Origin Links) [0..<length Links]) = {0}"
  proof (intro equalityI subsetI)
    fix d assume "d \<in> Depth ` set (map (LeafNode V M Origin Links) [0..<length Links])"
    then show "d \<in> {0}" by (auto simp: LeafNode_def)
  next
    fix d :: nat assume "d \<in> {0}"
    then have "d = Depth (LeafNode V M Origin Links 0)" by (simp add: LeafNode_def)
    with z show "d \<in> Depth ` set (map (LeafNode V M Origin Links) [0..<length Links])"
      by (simp only: set_map set_upt atLeast0LessThan) (rule image_eqI [where x = "LeafNode V M Origin Links 0"], simp, rule imageI, simp)
  qed
  then show ?thesis using False by (simp add: RootTree_def)
qed

lemma RebuildGraph_returns_ex:
  assumes "RedirectsDescend E rank"
    and "CurrentGraphRootIdentifier G \<notin> AssetId ` set (GetReferencers E (CurrentGraphRootIdentifier G) Categories)"
    and "2 \<le> fuel"
  shows "\<exists>G'. RebuildGraph V M fuel E G = Inr G'"
proof -
  from GetSortedLinks_terminates [OF assms(1)]
  obtain Links where l: "GetSortedLinks E (CurrentGraphRootIdentifier G) = Some Links" by blast
  from keys_GetSortedLinks [OF l] assms(2)
  have "CurrentGraphRootIdentifier G \<notin> fst ` set Links" by blast
  from RebuildGraph_returns [OF l this assms(3)] show ?thesis by blast
qed

lemma RebuildGraph_fresh:
  "RebuildGraph V M fuel E (G\<lparr>RefExplorerNodeInfos := OldInfos, Nodes := OldNodes\<rparr>)
     = RebuildGraph V M fuel E G"
proof (cases "GetSortedLinks E (CurrentGraphRootIdentifier G)")
  case None
  then show ?thesis by (simp add: RebuildGraph_def)
next
  case (Some Links)
  show ?thesis
  proof (cases "RecursivelyCreateNodes V M fuel
      (BuildNodeInfos E (CurrentGraphRootIdentifier G) Links)
      (CurrentGraphRootIdentifier G) (CurrentGraphRootOrigin G)")
    case (Inl e)
    with Some show ?thesis by (simp add: RebuildGraph_def)
  next
    case (Inr RootNode)
    with Some show ?thesis by (simp add: RebuildGraph_def)
  qed
qed

lemma count_list_distinct:
  "distinct xs \<Longrightarrow> x \<in> set xs \<Longrightarrow> count_list xs x = 1"
  by (induction xs) auto

lemma RebuildGraph_self_reference:
  assumes "GetSortedLinks E (CurrentGraphRootIdentifier G) = Some Links"
    and "CurrentGraphRootIdentifier G \<in> fst ` set Links"
  shows "isl (RebuildGraph V M fuel E G)"
proof (cases "RebuildGraph V M fuel E G")
  case (Inl e)
  then show ?thesis by simp
next
  case (Inr G')
  from RebuildGraph_Inr [OF this] assms show ?thesis by auto
qed

lemma Demo_root_not_referencer:
  "CurrentGraphRootIdentifier DemoGraph
     \<notin> AssetId ` set (GetReferencers DemoEngine (CurrentGraphRootIdentifier DemoGraph) Categories)"
  by (simp add: DemoGraph_def DemoEngine_def DemoRoot_def Dep_def PkgId_eq)

lemma Demo_Kept_A: "KeptId DemoEngine (PkgId ''A'')"
  by (simp add: KeptId_def IsBadPackage_def DemoEngine_def PkgId_def)

lemma Demo_A_reported:
  "length (filter (\<lambda>L. AssetId L = PkgId ''A'') (GetReferencers DemoEngine DemoRoot Categories)) = 2"
  "PkgId ''A'' \<in> AssetId ` set (GetReferencers DemoEngine (CurrentGraphRootIdentifier DemoGraph) Categories)"
  by (simp_all add: DemoGraph_def DemoEngine_def DemoRoot_def Categories_def Dep_def PkgId_eq)

text \<open>
  Claim C9. Every category in the classifier's map has the bit \<^verbatim>\<open>LinkEndActive\<close>: its name is
  not \<open>Passive\<close> and its colour is not the passive colour. The same holds for the map
  \<^verbatim>\<open>GetSortedLinks\<close> returns, and in a built graph no edge is named \<open>Passive\<close> at its output pin
  or drawn in the passive colour.
\<close>

theorem C9_no_passive_edge:
  "(\<forall>(K, C) \<in> set (ClassifyLinks Less Ls).
       C AND LinkEndMask = LinkEndActive \<and> GetName C \<noteq> NamePassive \<and> GetColor C \<noteq> ColorPassive)
   \<and> (\<forall>Links. GetSortedLinks E Root = Some Links \<longrightarrow>
         (\<forall>(K, C) \<in> set Links.
            C AND LinkEndMask = LinkEndActive \<and> GetName C \<noteq> NamePassive \<and> GetColor C \<noteq> ColorPassive))
   \<and> (\<forall>G' Node. RebuildGraph V M fuel E G = Inr G' \<and> Nodes G' = Some Node \<longrightarrow>
         (\<forall>(OutputPinCategory, InputPinCategory) \<in> set (Edges Node).
            OutputPinCategory \<noteq> NamePassive
          \<and> DetermineWiringStyle OutputPinCategory InputPinCategory \<noteq> ColorPassive))"
proof (intro conjI allI impI)
  show "\<forall>(K, C) \<in> set (ClassifyLinks Less Ls).
       C AND LinkEndMask = LinkEndActive \<and> GetName C \<noteq> NamePassive \<and> GetColor C \<noteq> ColorPassive"
  proof (clarify)
    fix K C assume "(K, C) \<in> set (ClassifyLinks Less Ls)"
    from ClassifyLinks_entry [OF this] obtain h g where "C = PinCat h g" by blast
    then show "C AND LinkEndMask = LinkEndActive \<and> GetName C \<noteq> NamePassive \<and> GetColor C \<noteq> ColorPassive"
      by (simp add: PinCat_active)
  qed
next
  fix Links assume "GetSortedLinks E Root = Some Links"
  show "\<forall>(K, C) \<in> set Links.
       C AND LinkEndMask = LinkEndActive \<and> GetName C \<noteq> NamePassive \<and> GetColor C \<noteq> ColorPassive"
  proof (clarify)
    fix K C assume "(K, C) \<in> set Links"
    from GetSortedLinks_entry [OF \<open>GetSortedLinks E Root = Some Links\<close> this]
    obtain h g where "C = PinCat h g" by blast
    then show "C AND LinkEndMask = LinkEndActive \<and> GetName C \<noteq> NamePassive \<and> GetColor C \<noteq> ColorPassive"
      by (simp add: PinCat_active)
  qed
next
  fix G' Node assume a: "RebuildGraph V M fuel E G = Inr G' \<and> Nodes G' = Some Node"
  from RebuildGraph_Inr [of V M fuel E G G'] a obtain Links where
    l: "GetSortedLinks E (CurrentGraphRootIdentifier G) = Some Links"
    and g: "G' = BuiltGraph V M E G Links" by blast
  from a g have n: "Node = RootTree V M (CurrentGraphRootIdentifier G) (CurrentGraphRootOrigin G) Links"
    by (simp add: BuiltGraph_def)
  show "\<forall>(OutputPinCategory, InputPinCategory) \<in> set (Edges Node).
            OutputPinCategory \<noteq> NamePassive
          \<and> DetermineWiringStyle OutputPinCategory InputPinCategory \<noteq> ColorPassive"
  proof (clarify, intro conjI)
    fix Out Inp assume "(Out, Inp) \<in> set (Edges Node)"
    then obtain K C where c: "(K, C) \<in> set Links" and o: "Out = GetName C"
      unfolding n Edges_RootTree by auto
    from GetSortedLinks_entry [OF l c] obtain h g where "C = PinCat h g" by blast
    with o show "Out \<noteq> NamePassive" "DetermineWiringStyle Out Inp \<noteq> ColorPassive"
      by (simp_all add: PinCat_active wire_PinCat)
  qed
qed

theorem C9_no_passive_edge_witness:
  "ClassifyLinks NoOrder [Dep ''T'' Package []] = [(PkgId ''T'', LinkEndActive)]
   \<and> GetName LinkEndActive \<noteq> NamePassive
   \<and> GetColor LinkEndActive \<noteq> ColorPassive
   \<and> (\<exists>G' Node. RebuildGraph RefExplorer ExactMath 2 DemoEngine DemoGraph = Inr G'
         \<and> Nodes G' = Some Node
         \<and> Edges Node = [(NameHardEditorOnly, PassiveName), (NameHardUsedInGame, PassiveName)]
         \<and> DetermineWiringStyle NameHardEditorOnly PassiveName \<noteq> ColorPassive
         \<and> DetermineWiringStyle NameHardUsedInGame PassiveName \<noteq> ColorPassive)"
proof -
  note inst = C9_no_passive_edge [where Less = NoOrder and Ls = "[Dep ''T'' Package []]"
      and E = DemoEngine and Root = DemoRoot and V = RefExplorer and M = ExactMath and fuel = 2
      and G = DemoGraph]
  have c: "ClassifyLinks NoOrder [Dep ''T'' Package []] = [(PkgId ''T'', LinkEndActive)]"
    by (simp add: ClassifyLinks_def Dep_def TMap_Modify_def TMap_FindOrAdd_def TMap_Contains_def
        LinkBits_def IsHard_def cat_defs)
  with inst have n: "GetName LinkEndActive \<noteq> NamePassive" "GetColor LinkEndActive \<noteq> ColorPassive"
    by simp_all
  let ?G = "BuiltGraph RefExplorer ExactMath DemoEngine DemoGraph [(PkgId ''A'', 5), (PkgId ''B'', 7)]"
  let ?N = "RootTree RefExplorer ExactMath DemoRoot (0, 0) [(PkgId ''A'', 5), (PkgId ''B'', 7)]"
  have run: "RebuildGraph RefExplorer ExactMath 2 DemoEngine DemoGraph = Inr ?G"
    by (rule Demo_Rebuild)
  have nodes: "Nodes ?G = Some ?N"
    by (simp add: BuiltGraph_def DemoGraph_def)
  have edges: "Edges ?N = [(NameHardEditorOnly, PassiveName), (NameHardUsedInGame, PassiveName)]"
    by (simp add: Edges_RootTree GetName_def cat_defs name_defs)
  from inst run nodes
  have "\<forall>(Out, Inp) \<in> set (Edges ?N). Out \<noteq> NamePassive \<and> DetermineWiringStyle Out Inp \<noteq> ColorPassive"
    by blast
  then have "DetermineWiringStyle NameHardEditorOnly PassiveName \<noteq> ColorPassive"
    "DetermineWiringStyle NameHardUsedInGame PassiveName \<noteq> ColorPassive"
    unfolding edges by simp_all
  with c n run nodes edges show ?thesis by blast
qed

text \<open>
  Claim C10. After every \<^verbatim>\<open>RebuildGraph\<close> that returns, every entry of the table other than
  the root's has no children and exactly the root as its parents, the nodes are the root
  with at most one level below it, and the result does not depend on the table and the
  nodes of an earlier build. The call returns when the filter of the classifier ends and the
  root is not reported as its own referencer.
\<close>

theorem C10_one_level:
  "(RedirectsDescend E rank
      \<and> CurrentGraphRootIdentifier G \<notin> AssetId ` set (GetReferencers E (CurrentGraphRootIdentifier G) Categories)
      \<and> 2 \<le> fuel
      \<longrightarrow> (\<exists>G'. RebuildGraph V M fuel E G = Inr G'))
   \<and> (\<forall>G'. RebuildGraph V M fuel E G = Inr G' \<longrightarrow>
         (\<forall>(K, N) \<in> set (RefExplorerNodeInfos G').
             K \<noteq> CurrentGraphRootIdentifier G
               \<longrightarrow> Children N = [] \<and> Parents N = [CurrentGraphRootIdentifier G])
       \<and> (\<exists>Node. Nodes G' = Some Node \<and> Identifier Node = CurrentGraphRootIdentifier G
             \<and> Depth Node \<le> 1 \<and> (\<forall>R \<in> set (Referencers Node). Referencers R = []))
       \<and> RebuildGraph V M fuel E (G\<lparr>RefExplorerNodeInfos := OldInfos, Nodes := OldNodes\<rparr>) = Inr G')"
proof (intro conjI allI impI)
  assume "RedirectsDescend E rank
      \<and> CurrentGraphRootIdentifier G \<notin> AssetId ` set (GetReferencers E (CurrentGraphRootIdentifier G) Categories)
      \<and> 2 \<le> fuel"
  then show "\<exists>G'. RebuildGraph V M fuel E G = Inr G'"
    using RebuildGraph_returns_ex by blast
next
  fix G' assume run: "RebuildGraph V M fuel E G = Inr G'"
  let ?Root = "CurrentGraphRootIdentifier G"
  from RebuildGraph_Inr [OF run] obtain Links where
    l: "GetSortedLinks E ?Root = Some Links" and notin: "?Root \<notin> fst ` set Links"
    and g: "G' = BuiltGraph V M E G Links" by blast
  note d = distinct_GetSortedLinks [OF l]
  show "\<forall>(K, N) \<in> set (RefExplorerNodeInfos G').
          K \<noteq> ?Root \<longrightarrow> Children N = [] \<and> Parents N = [?Root]"
  proof (clarify)
    fix K N assume "(K, N) \<in> set (RefExplorerNodeInfos G')" "K \<noteq> ?Root"
    then have "(K, N) \<in> set (AttachAssetData E (LinkedInfos ?Root Links))"
      by (simp add: g BuiltGraph_def BuildNodeInfos_eq [OF d])
    from entries_AttachAssetData [OF this] obtain N0 where
      "(K, N0) \<in> set (LinkedInfos ?Root Links)" "Children N = Children N0" "Parents N = Parents N0"
      by blast
    with entries_LinkedInfos [OF this(1) \<open>K \<noteq> ?Root\<close>]
    show "Children N = [] \<and> Parents N = [?Root]"
      by (simp add: ChildInfo_def NewNodeInfo_def)
  qed
  show "\<exists>Node. Nodes G' = Some Node \<and> Identifier Node = ?Root
             \<and> Depth Node \<le> 1 \<and> (\<forall>R \<in> set (Referencers Node). Referencers R = [])"
  proof (intro exI conjI)
    show "Nodes G' = Some (RootTree V M ?Root (CurrentGraphRootOrigin G) Links)"
      by (simp add: g BuiltGraph_def)
    show "Identifier (RootTree V M ?Root (CurrentGraphRootOrigin G) Links) = ?Root"
      by (simp add: RootTree_def)
    show "Depth (RootTree V M ?Root (CurrentGraphRootOrigin G) Links) \<le> 1"
      by (rule Depth_RootTree)
    show "\<forall>R \<in> set (Referencers (RootTree V M ?Root (CurrentGraphRootOrigin G) Links)).
        Referencers R = []"
      by (auto simp: RootTree_def LeafNode_def)
  qed
  have "RebuildGraph V M fuel E (G\<lparr>RefExplorerNodeInfos := OldInfos, Nodes := OldNodes\<rparr>)
      = RebuildGraph V M fuel E G"
    by (rule RebuildGraph_fresh)
  with run show "RebuildGraph V M fuel E (G\<lparr>RefExplorerNodeInfos := OldInfos, Nodes := OldNodes\<rparr>) = Inr G'"
    by simp
qed

theorem C10_one_level_witness:
  "RedirectsDescend DemoEngine (\<lambda>Pkg. 0)
   \<and> (\<exists>G'. RebuildGraph RefExplorer ExactMath 2 DemoEngine DemoGraph = Inr G'
         \<and> (\<exists>Node. Nodes G' = Some Node \<and> Identifier Node = DemoRoot \<and> Depth Node \<le> 1)
         \<and> RebuildGraph RefExplorer ExactMath 2 DemoEngine
              (DemoGraph\<lparr>RefExplorerNodeInfos := [(PkgId ''Old'', NewNodeInfo (PkgId ''Old''))],
                         Nodes := None\<rparr>) = Inr G')"
proof -
  note inst = C10_one_level [where E = DemoEngine and rank = "\<lambda>Pkg. 0" and G = DemoGraph
      and fuel = 2 and V = RefExplorer and M = ExactMath
      and OldInfos = "[(PkgId ''Old'', NewNodeInfo (PkgId ''Old''))]" and OldNodes = None]
  from inst Demo_Descend Demo_root_not_referencer
  obtain G' where run: "RebuildGraph RefExplorer ExactMath 2 DemoEngine DemoGraph = Inr G'"
    by auto
  have root: "CurrentGraphRootIdentifier DemoGraph = DemoRoot"
    by (simp add: DemoGraph_def)
  from inst run
  have "(\<exists>Node. Nodes G' = Some Node \<and> Identifier Node = DemoRoot \<and> Depth Node \<le> 1)
         \<and> RebuildGraph RefExplorer ExactMath 2 DemoEngine
              (DemoGraph\<lparr>RefExplorerNodeInfos := [(PkgId ''Old'', NewNodeInfo (PkgId ''Old''))],
                         Nodes := None\<rparr>) = Inr G'"
    unfolding root by blast
  with run Demo_Descend show ?thesis by blast
qed

text \<open>
  Claim C3, as stated, fails for a target the classifier removes: the registry reports the
  pair of the root and \<open>T\<close> twice, \<open>T\<close> has no package data, and after \<^verbatim>\<open>RebuildGraph\<close> the
  table has the entries of the root, \<open>A\<close> and \<open>B\<close> only: \<open>T\<close> is in it zero times.
\<close>

theorem C3_counterexample:
  "length (filter (\<lambda>L. AssetId L = PkgId ''T'') (GetReferencers DemoEngine DemoRoot Categories)) = 2
   \<and> map_sum id (\<lambda>G'. map fst (RefExplorerNodeInfos G'))
        (RebuildGraph RefExplorer ExactMath 2 DemoEngine DemoGraph)
      = Inr [DemoRoot, PkgId ''A'', PkgId ''B'']
   \<and> count_list [DemoRoot, PkgId ''A'', PkgId ''B''] (PkgId ''T'') = 0"
proof -
  have "map fst (RefExplorerNodeInfos
          (BuiltGraph RefExplorer ExactMath DemoEngine DemoGraph [(PkgId ''A'', 5), (PkgId ''B'', 7)]))
        = [DemoRoot, PkgId ''A'', PkgId ''B'']"
    unfolding BuiltGraph_def
    by (simp add: keys_BuildNodeInfos DemoGraph_def DemoRoot_def PkgId_eq)
  then show ?thesis
    by (simp add: Demo_Rebuild) (simp add: DemoEngine_def DemoRoot_def Categories_def PkgId_def Dep_def)
qed

text \<open>
  Claim C3, amended. After a \<^verbatim>\<open>RebuildGraph\<close> that returns, a target the registry reports
  for the root, however many times, and that the classifier keeps is in the table exactly
  once, is the target of exactly one of the root's children, and has the root exactly once
  among its parents. A reported target the classifier removes is the target of no child,
  and is in the table only when it is the root itself.
\<close>

theorem C3_edges_once:
  "(RedirectsDescend E rank
      \<and> CurrentGraphRootIdentifier G \<notin> AssetId ` set (GetReferencers E (CurrentGraphRootIdentifier G) Categories)
      \<and> 2 \<le> fuel
      \<longrightarrow> (\<exists>G'. RebuildGraph V M fuel E G = Inr G'))
   \<and> (\<forall>G'. RebuildGraph V M fuel E G = Inr G'
          \<and> T \<in> AssetId ` set (GetReferencers E (CurrentGraphRootIdentifier G) Categories) \<longrightarrow>
         (if KeptId E T
          then count_list (map fst (RefExplorerNodeInfos G')) T = 1
             \<and> (\<exists>RootInfo TargetInfo.
                   TMap_Find (RefExplorerNodeInfos G') (CurrentGraphRootIdentifier G) = Some RootInfo
                 \<and> count_list (map fst (Children RootInfo)) T = 1
                 \<and> TMap_Find (RefExplorerNodeInfos G') T = Some TargetInfo
                 \<and> count_list (Parents TargetInfo) (CurrentGraphRootIdentifier G) = 1)
          else count_list (map fst (RefExplorerNodeInfos G')) T
                 = (if T = CurrentGraphRootIdentifier G then 1 else 0)
             \<and> (\<exists>RootInfo.
                   TMap_Find (RefExplorerNodeInfos G') (CurrentGraphRootIdentifier G) = Some RootInfo
                 \<and> count_list (map fst (Children RootInfo)) T = 0)))"
proof (intro conjI allI impI)
  assume "RedirectsDescend E rank
      \<and> CurrentGraphRootIdentifier G \<notin> AssetId ` set (GetReferencers E (CurrentGraphRootIdentifier G) Categories)
      \<and> 2 \<le> fuel"
  then show "\<exists>G'. RebuildGraph V M fuel E G = Inr G'"
    using RebuildGraph_returns_ex by blast
next
  fix G'
  let ?Root = "CurrentGraphRootIdentifier G"
  assume a: "RebuildGraph V M fuel E G = Inr G' \<and> T \<in> AssetId ` set (GetReferencers E ?Root Categories)"
  from RebuildGraph_Inr [of V M fuel E G G'] a obtain Links where
    l: "GetSortedLinks E ?Root = Some Links" and notin: "?Root \<notin> fst ` set Links"
    and g: "G' = BuiltGraph V M E G Links" by blast
  note d = distinct_GetSortedLinks [OF l]
  have infos: "RefExplorerNodeInfos G' = BuildNodeInfos E ?Root Links"
    by (simp add: g BuiltGraph_def)
  have keys: "map fst (RefExplorerNodeInfos G') = ?Root # map fst Links"
    unfolding infos by (rule keys_BuildNodeInfos [OF d notin])
  from Find_BuildNodeInfos_Root [OF d, of E ?Root] obtain RN where
    rn: "TMap_Find (RefExplorerNodeInfos G') ?Root = Some RN" "Children RN = Links"
    unfolding infos by blast
  have mem: "T \<in> fst ` set Links \<longleftrightarrow> KeptId E T"
    using keys_GetSortedLinks [OF l, of T] a by simp
  show "if KeptId E T
          then count_list (map fst (RefExplorerNodeInfos G')) T = 1
             \<and> (\<exists>RootInfo TargetInfo.
                   TMap_Find (RefExplorerNodeInfos G') ?Root = Some RootInfo
                 \<and> count_list (map fst (Children RootInfo)) T = 1
                 \<and> TMap_Find (RefExplorerNodeInfos G') T = Some TargetInfo
                 \<and> count_list (Parents TargetInfo) ?Root = 1)
          else count_list (map fst (RefExplorerNodeInfos G')) T = (if T = ?Root then 1 else 0)
             \<and> (\<exists>RootInfo.
                   TMap_Find (RefExplorerNodeInfos G') ?Root = Some RootInfo
                 \<and> count_list (map fst (Children RootInfo)) T = 0)"
  proof (cases "KeptId E T")
    case True
    with mem have t: "T \<in> fst ` set Links" by simp
    with notin have ne: "T \<noteq> ?Root" by metis
    from t have t': "T \<in> set (map fst Links)" by simp
    have c1: "count_list (map fst Links) T = 1"
      by (rule count_list_distinct [OF d t'])
    from Find_BuildNodeInfos_child [OF d t ne, of E] obtain TN where
      tn: "TMap_Find (RefExplorerNodeInfos G') T = Some TN" "Parents TN = [?Root]"
      unfolding infos by blast
    have "count_list (map fst (RefExplorerNodeInfos G')) T = 1"
      unfolding keys using c1 ne by simp
    moreover have "count_list (map fst (Children RN)) T = 1" using c1 rn(2) by simp
    moreover have "count_list (Parents TN) ?Root = 1" using tn(2) by simp
    ultimately show ?thesis using True rn(1) tn(1) by simp
  next
    case False
    with mem have t: "T \<notin> set (map fst Links)" by simp
    have c0: "count_list (map fst Links) T = 0"
      using t by (simp add: count_list_0_iff)
    have "count_list (map fst (RefExplorerNodeInfos G')) T = (if T = ?Root then 1 else 0)"
      unfolding keys using c0 by auto
    moreover have "count_list (map fst (Children RN)) T = 0" using c0 rn(2) by simp
    ultimately show ?thesis using False rn(1) by simp
  qed
qed

theorem C3_edges_once_witness:
  "RedirectsDescend DemoEngine (\<lambda>Pkg. 0)
   \<and> length (filter (\<lambda>L. AssetId L = PkgId ''A'') (GetReferencers DemoEngine DemoRoot Categories)) = 2
   \<and> KeptId DemoEngine (PkgId ''A'')
   \<and> (\<exists>G'. RebuildGraph RefExplorer ExactMath 2 DemoEngine DemoGraph = Inr G'
         \<and> count_list (map fst (RefExplorerNodeInfos G')) (PkgId ''A'') = 1
         \<and> (\<exists>RootInfo TargetInfo.
               TMap_Find (RefExplorerNodeInfos G') DemoRoot = Some RootInfo
             \<and> count_list (map fst (Children RootInfo)) (PkgId ''A'') = 1
             \<and> TMap_Find (RefExplorerNodeInfos G') (PkgId ''A'') = Some TargetInfo
             \<and> count_list (Parents TargetInfo) DemoRoot = 1))"
proof -
  note inst = C3_edges_once [where E = DemoEngine and rank = "\<lambda>Pkg. 0" and G = DemoGraph
      and fuel = 2 and V = RefExplorer and M = ExactMath and T = "PkgId ''A''"]
  from inst Demo_Descend Demo_root_not_referencer
  obtain G' where run: "RebuildGraph RefExplorer ExactMath 2 DemoEngine DemoGraph = Inr G'"
    by auto
  have root: "CurrentGraphRootIdentifier DemoGraph = DemoRoot"
    by (simp add: DemoGraph_def)
  from inst run Demo_A_reported(2) Demo_Kept_A
  have "count_list (map fst (RefExplorerNodeInfos G')) (PkgId ''A'') = 1
         \<and> (\<exists>RootInfo TargetInfo.
               TMap_Find (RefExplorerNodeInfos G') DemoRoot = Some RootInfo
             \<and> count_list (map fst (Children RootInfo)) (PkgId ''A'') = 1
             \<and> TMap_Find (RefExplorerNodeInfos G') (PkgId ''A'') = Some TargetInfo
             \<and> count_list (Parents TargetInfo) DemoRoot = 1)"
    unfolding root by (metis (no_types, lifting))
  with run Demo_Descend Demo_A_reported(1) Demo_Kept_A show ?thesis by blast
qed

section \<open>The widget's requests and notifications\<close>

lemma RebuildGraph_loading:
  "IsLoadingAssets E \<Longrightarrow> SRefExplorer_RebuildGraph V M fuel E W = Inr (Deferred W)"
  by (simp add: SRefExplorer_RebuildGraph_def Deferred_def AddSP_def)

lemma Deferred_bound: "IsBoundToObject (OnFilesLoaded (Deferred W)) (Self (Deferred W))"
  by (simp add: Deferred_def IsBoundToObject_def)

lemma Deferred_idem: "Deferred (Deferred W) = Deferred W"
  using Deferred_bound [of W] by (simp add: Deferred_def [of "Deferred W"])

lemma Deferred_frame:
  "Self (Deferred W) = Self W" "GraphObj (Deferred W) = GraphObj W"
  "bDirtyResults (Deferred W) = bDirtyResults W"
  "AssetRefreshHandle (Deferred W) = AssetRefreshHandle W"
  "OnAssetUpdated (Deferred W) = OnAssetUpdated W" "OnAssetAdded (Deferred W) = OnAssetAdded W"
  "OnAssetRemoved (Deferred W) = OnAssetRemoved W"
  by (simp_all add: Deferred_def)

lemma CountBound_pos: "CountBound D Obj = 0 \<longleftrightarrow> \<not> IsBoundToObject D Obj"
  by (auto simp: CountBound_def IsBoundToObject_def filter_empty_conv)

lemma Deferred_count:
  "CountBound (OnFilesLoaded (Deferred W)) (Self W) = max 1 (CountBound (OnFilesLoaded W) (Self W))"
proof (cases "IsBoundToObject (OnFilesLoaded W) (Self W)")
  case True
  then have "CountBound (OnFilesLoaded W) (Self W) \<noteq> 0" by (simp add: CountBound_pos)
  with True show ?thesis by (simp add: Deferred_def)
next
  case False
  then have "CountBound (OnFilesLoaded W) (Self W) = 0" by (simp add: CountBound_pos)
  with False show ?thesis by (simp add: Deferred_def CountBound_def)
qed

lemma RebuildRequests_loading:
  "IsLoadingAssets E \<Longrightarrow> RebuildRequests V M fuel E (Suc n) W = Inr (Deferred W)"
proof (induction n arbitrary: W)
  case 0
  then show ?case by (simp add: RebuildGraph_loading)
next
  case (Suc n)
  from Suc.IH [OF Suc.prems, of "Deferred W"] Suc.prems
  show ?case by (simp add: RebuildGraph_loading Deferred_idem)
qed

lemma Deferred_request:
  "IsLoadingAssets E \<longrightarrow>
     (\<exists>W'. SRefExplorer_RebuildGraph V M fuel E W = Inr W'
        \<and> GraphObj W' = GraphObj W \<and> bDirtyResults W' = bDirtyResults W
        \<and> AssetRefreshHandle W' = AssetRefreshHandle W
        \<and> OnAssetUpdated W' = OnAssetUpdated W \<and> OnAssetAdded W' = OnAssetAdded W
        \<and> OnAssetRemoved W' = OnAssetRemoved W
        \<and> IsBoundToObject (OnFilesLoaded W') (Self W)
        \<and> (\<not> IsBoundToObject (OnFilesLoaded W) (Self W) \<longrightarrow>
             OnFilesLoaded W' = OnFilesLoaded W @ [(Self W, BoundOnInitialAssetRegistrySearchComplete)])
        \<and> CountBound (OnFilesLoaded W') (Self W) = max 1 (CountBound (OnFilesLoaded W) (Self W))
        \<and> RebuildRequests V M fuel E (Suc n) W = Inr W')"
proof
  assume l: "IsLoadingAssets E"
  show "\<exists>W'. SRefExplorer_RebuildGraph V M fuel E W = Inr W'
        \<and> GraphObj W' = GraphObj W \<and> bDirtyResults W' = bDirtyResults W
        \<and> AssetRefreshHandle W' = AssetRefreshHandle W
        \<and> OnAssetUpdated W' = OnAssetUpdated W \<and> OnAssetAdded W' = OnAssetAdded W
        \<and> OnAssetRemoved W' = OnAssetRemoved W
        \<and> IsBoundToObject (OnFilesLoaded W') (Self W)
        \<and> (\<not> IsBoundToObject (OnFilesLoaded W) (Self W) \<longrightarrow>
             OnFilesLoaded W' = OnFilesLoaded W @ [(Self W, BoundOnInitialAssetRegistrySearchComplete)])
        \<and> CountBound (OnFilesLoaded W') (Self W) = max 1 (CountBound (OnFilesLoaded W) (Self W))
        \<and> RebuildRequests V M fuel E (Suc n) W = Inr W'"
  proof (intro exI [of _ "Deferred W"] conjI)
    show "SRefExplorer_RebuildGraph V M fuel E W = Inr (Deferred W)"
      by (rule RebuildGraph_loading [OF l])
    show "IsBoundToObject (OnFilesLoaded (Deferred W)) (Self W)"
      using Deferred_bound [of W] by (simp add: Deferred_frame)
    show "\<not> IsBoundToObject (OnFilesLoaded W) (Self W) \<longrightarrow>
             OnFilesLoaded (Deferred W) = OnFilesLoaded W @ [(Self W, BoundOnInitialAssetRegistrySearchComplete)]"
      by (simp add: Deferred_def)
    show "CountBound (OnFilesLoaded (Deferred W)) (Self W) = max 1 (CountBound (OnFilesLoaded W) (Self W))"
      by (rule Deferred_count)
    show "RebuildRequests V M fuel E (Suc n) W = Inr (Deferred W)"
      by (rule RebuildRequests_loading [OF l])
  qed (simp_all add: Deferred_frame)
qed

lemma Broadcast_unbound:
  "\<not> IsBoundToObject D (Self W) \<Longrightarrow> Broadcast V M fuel E (D @ Rest) W = Broadcast V M fuel E Rest W"
  by (induction D) (auto simp: IsBoundToObject_def)

lemma OnInitial_Self:
  "OnInitialAssetRegistrySearchComplete V M fuel E W = Inr W' \<Longrightarrow> Self W' = Self W"
  by (auto simp: OnInitialAssetRegistrySearchComplete_def split: sum.splits)

lemma FilesLoaded_Deferred:
  assumes "\<not> IsBoundToObject (OnFilesLoaded W) (Self W)"
  shows "FilesLoaded V M fuel E (Deferred W) = OnInitialAssetRegistrySearchComplete V M fuel E (Deferred W)"
proof -
  have d: "OnFilesLoaded (Deferred W) = OnFilesLoaded W @ [(Self W, BoundOnInitialAssetRegistrySearchComplete)]"
    using assms by (simp add: Deferred_def)
  have u: "\<not> IsBoundToObject (OnFilesLoaded W) (Self (Deferred W))"
    using assms by (simp add: Deferred_frame)
  show ?thesis
    unfolding FilesLoaded_def d Broadcast_unbound [OF u]
    by (simp add: Deferred_frame split: sum.splits)
qed

lemma OnInitial_rebuilds:
  assumes "GraphObj W = Some G" "RebuildGraph V M fuel E G = Inr G'"
  shows "OnInitialAssetRegistrySearchComplete V M fuel E W = Inr (W\<lparr>GraphObj := Some G'\<rparr>)"
  using assms by (simp add: OnInitialAssetRegistrySearchComplete_def RebuildGraphObj_def)

lemma Deferred_then_loaded:
  assumes "IsLoadingAssets E" "\<not> IsBoundToObject (OnFilesLoaded W) (Self W)"
    and "GraphObj W = Some G" "RebuildGraph V M fuel E' G = Inr G'"
  shows "SRefExplorer_RebuildGraph V M fuel E W = Inr (Deferred W)
     \<and> FilesLoaded V M fuel E' (Deferred W) = Inr ((Deferred W)\<lparr>GraphObj := Some G'\<rparr>)"
proof -
  have "GraphObj (Deferred W) = Some G" using assms(3) by (simp add: Deferred_frame)
  from OnInitial_rebuilds [OF this assms(4)] show ?thesis
    by (simp add: RebuildGraph_loading [OF assms(1)] FilesLoaded_Deferred [OF assms(2)])
qed

text \<open>The graph's own \<^verbatim>\<open>RebuildGraph\<close> does not ask whether the registry is loading.\<close>

lemma FilterLoop_IsLoadingAssets_aux:
  assumes run: "FilterLoop E1 Ids0 i0 = Some R0"
    and bad: "\<And>p. IsBadPackage E2 p = IsBadPackage E1 p"
    and rep: "\<And>I k. ReplaceBadPackage E2 I k = ReplaceBadPackage E1 I k"
  shows "FilterLoop E2 Ids0 i0 = Some R0"
proof -
  have "E1 = E1 \<longrightarrow> FilterLoop E2 Ids0 i0 = Some R0"
  proof (rule FilterLoop.raw_induct
      [where P = "\<lambda>E Ids i R. E = E1 \<longrightarrow> FilterLoop E2 Ids i = Some R", OF _ run], goal_cases)
    case (1 F E Ids i R)
    show ?case
    proof
      assume e: "E = E1"
      show "FilterLoop E2 Ids i = Some R"
      proof (cases "i < length Ids")
        case False
        with 1(2) show ?thesis by (subst FilterLoop.simps) simp
      next
        case True
        show ?thesis
        proof (cases "PackageName (Ids ! i) \<noteq> NAME_None \<and> IsBadPackage E (PackageName (Ids ! i))")
          case b: True
          from 1(2) True b have "F E (ReplaceBadPackage E Ids i) i = Some R"
            by (simp split: if_splits)
          from 1(1) [OF this] e have "FilterLoop E2 (ReplaceBadPackage E1 Ids i) i = Some R" by simp
          then show ?thesis
            using True b e by (subst FilterLoop.simps) (simp add: bad rep)
        next
          case g: False
          from 1(2) True g have "F E Ids (Suc i) = Some R"
            by (simp split: if_splits)
          from 1(1) [OF this] e have "FilterLoop E2 Ids (Suc i) = Some R" by simp
          then show ?thesis
            using True g e by (subst FilterLoop.simps) (auto simp add: bad rep)
        qed
      qed
    qed
  qed
  then show ?thesis by simp
qed

lemma FilterLoop_IsLoadingAssets:
  "FilterLoop (E\<lparr>IsLoadingAssets := b\<rparr>) Ids i = FilterLoop E Ids i"
proof -
  let ?E = "E\<lparr>IsLoadingAssets := b\<rparr>"
  have a: "IsBadPackage ?E p = IsBadPackage E p" for p by (simp add: IsBadPackage_def)
  have r: "ReplaceBadPackage ?E I k = ReplaceBadPackage E I k" for I k
    by (simp add: ReplaceBadPackage_def Let_def)
  show ?thesis
  proof (cases "FilterLoop E Ids i")
    case None
    show ?thesis
    proof (cases "FilterLoop ?E Ids i")
      case n: None
      with None show ?thesis by simp
    next
      case (Some R)
      from FilterLoop_IsLoadingAssets_aux [OF Some, of E] a r None show ?thesis by simp
    qed
  next
    case (Some R)
    from FilterLoop_IsLoadingAssets_aux [OF Some, of ?E] a r Some show ?thesis by simp
  qed
qed

lemma RebuildGraph_IsLoadingAssets:
  "RebuildGraph V M fuel (E\<lparr>IsLoadingAssets := b\<rparr>) G = RebuildGraph V M fuel E G"
proof -
  have g: "GetSortedLinks (E\<lparr>IsLoadingAssets := b\<rparr>) R = GetSortedLinks E R" for R
    by (simp add: GetSortedLinks_def FilterLoop_IsLoadingAssets)
  have i: "BuildNodeInfos (E\<lparr>IsLoadingAssets := b\<rparr>) R L = BuildNodeInfos E R L" for R L
    by (simp add: BuildNodeInfos_def AttachAssetData_def Let_def)
  show ?thesis
    unfolding RebuildGraph_def g i ..
qed

lemma Handlers_IsLoadingAssets:
  "OnFindPathAssetSelected V M fuel (E\<lparr>IsLoadingAssets := b\<rparr>) W Pkg
     = OnFindPathAssetSelected V M fuel E W Pkg"
  "OnFindPathAssetEnterPressed V M fuel (E\<lparr>IsLoadingAssets := b\<rparr>) W Pkgs
     = OnFindPathAssetEnterPressed V M fuel E W Pkgs"
  "OnNodeDoubleClicked V M fuel (E\<lparr>IsLoadingAssets := b\<rparr>) W Node
     = OnNodeDoubleClicked V M fuel E W Node"
  unfolding OnFindPathAssetSelected_def OnFindPathAssetEnterPressed_def
    OnNodeDoubleClicked_def RebuildGraph_IsLoadingAssets by (rule refl)+

lemma RebuildGraph_makes_nodes:
  assumes "RebuildGraph V M fuel E G = Inr G'"
  shows "TMap_Contains (RefExplorerNodeInfos G') (CurrentGraphRootIdentifier G) \<and> Nodes G' \<noteq> None"
proof -
  from RebuildGraph_Inr [OF assms] obtain Links where
    l: "GetSortedLinks E (CurrentGraphRootIdentifier G) = Some Links"
    and n: "CurrentGraphRootIdentifier G \<notin> fst ` set Links"
    and g: "G' = BuiltGraph V M E G Links"
    by blast
  have "map fst (RefExplorerNodeInfos G') = CurrentGraphRootIdentifier G # map fst Links"
    unfolding g BuiltGraph_def using keys_BuildNodeInfos [OF distinct_GetSortedLinks [OF l] n]
    by simp
  then have "CurrentGraphRootIdentifier G \<in> set (map fst (RefExplorerNodeInfos G'))"
    by simp
  then show ?thesis
    unfolding g by (simp add: TMap_Contains_def BuiltGraph_def)
qed

lemma Loading_Rebuild:
  "RebuildGraph V M 2 LoadingEngine DemoGraph
     = Inr (BuiltGraph V M DemoEngine DemoGraph [(PkgId ''A'', 5), (PkgId ''B'', 7)])"
  unfolding LoadingEngine_def RebuildGraph_IsLoadingAssets by (rule Demo_Rebuild)

text \<open>
  Claim C7 on the code. A request made through \<^verbatim>\<open>SRefExplorer::RebuildGraph\<close> while the
  registry is loading is deferred as the claim says: the widget's graph is untouched, the
  widget is bound to \<^verbatim>\<open>OnFilesLoaded\<close> once if it was not bound and as often as before if it
  was, and when the registry then calls what is bound, \<^verbatim>\<open>OnInitialAssetRegistrySearchComplete\<close>
  rebuilds the graph. The handlers of the asset picker and of a double click on a node do
  not ask the registry: their result is the same whether it is loading or not. When they
  return while it is loading, the graph has been rebuilt, with an entry of the table and a
  node for the new root, and nothing has been bound to \<^verbatim>\<open>OnFilesLoaded\<close>.
\<close>

theorem C7_rebuild_while_loading:
  "(IsLoadingAssets E \<longrightarrow>
      SRefExplorer_RebuildGraph V M fuel E W = Inr (Deferred W) \<and> GraphObj (Deferred W) = GraphObj W
      \<and> CountBound (OnFilesLoaded (Deferred W)) (Self W) = max 1 (CountBound (OnFilesLoaded W) (Self W))
      \<and> (\<not> IsBoundToObject (OnFilesLoaded W) (Self W) \<and> GraphObj W = Some G
             \<and> RebuildGraph V M fuel Loaded G = Inr Rebuilt \<longrightarrow>
           FilesLoaded V M fuel Loaded (Deferred W) = Inr ((Deferred W)\<lparr>GraphObj := Some Rebuilt\<rparr>)))
   \<and> OnFindPathAssetSelected V M fuel (E\<lparr>IsLoadingAssets := True\<rparr>) W Pkg
       = OnFindPathAssetSelected V M fuel (E\<lparr>IsLoadingAssets := False\<rparr>) W Pkg
   \<and> OnFindPathAssetEnterPressed V M fuel (E\<lparr>IsLoadingAssets := True\<rparr>) W Pkgs
       = OnFindPathAssetEnterPressed V M fuel (E\<lparr>IsLoadingAssets := False\<rparr>) W Pkgs
   \<and> OnNodeDoubleClicked V M fuel (E\<lparr>IsLoadingAssets := True\<rparr>) W Node
       = OnNodeDoubleClicked V M fuel (E\<lparr>IsLoadingAssets := False\<rparr>) W Node
   \<and> (IsLoadingAssets E \<and> OnFindPathAssetSelected V M fuel E W Pkg = Inr W' \<longrightarrow>
        OnFilesLoaded W' = OnFilesLoaded W
        \<and> (\<exists>G G'. GraphObj W = Some G \<and> GraphObj W' = Some G'
              \<and> RebuildGraph V M fuel E (SetGraphRoot G (FAssetIdentifier Pkg NAME_None NAME_None) (0, 0))
                  = Inr G'
              \<and> TMap_Contains (RefExplorerNodeInfos G') (FAssetIdentifier Pkg NAME_None NAME_None)
              \<and> Nodes G' \<noteq> None))
   \<and> (IsLoadingAssets E \<and> GraphObj W = Some G
        \<and> OnNodeDoubleClicked V M fuel E W (Some RefExplorerNode) = Inr W' \<longrightarrow>
        OnFilesLoaded W' = OnFilesLoaded W
        \<and> (\<exists>G'. GraphObj W' = Some G'
              \<and> RebuildGraph V M fuel E (SetGraphRoot G (Identifier RefExplorerNode) (0, 0)) = Inr G'
              \<and> TMap_Contains (RefExplorerNodeInfos G') (Identifier RefExplorerNode)
              \<and> Nodes G' \<noteq> None))"
proof (intro conjI impI)
  assume l: "IsLoadingAssets E"
  then show "SRefExplorer_RebuildGraph V M fuel E W = Inr (Deferred W)"
    by (rule RebuildGraph_loading)
  show "GraphObj (Deferred W) = GraphObj W"
    by (simp add: Deferred_frame)
  show "CountBound (OnFilesLoaded (Deferred W)) (Self W) = max 1 (CountBound (OnFilesLoaded W) (Self W))"
    by (rule Deferred_count)
  assume "\<not> IsBoundToObject (OnFilesLoaded W) (Self W) \<and> GraphObj W = Some G
             \<and> RebuildGraph V M fuel Loaded G = Inr Rebuilt"
  with Deferred_then_loaded [OF l, of W G V M fuel Loaded Rebuilt]
  show "FilesLoaded V M fuel Loaded (Deferred W) = Inr ((Deferred W)\<lparr>GraphObj := Some Rebuilt\<rparr>)"
    by blast
next
  assume a: "IsLoadingAssets E \<and> OnFindPathAssetSelected V M fuel E W Pkg = Inr W'"
  let ?Id = "FAssetIdentifier Pkg NAME_None NAME_None"
  from a obtain G G' where g: "GraphObj W = Some G"
    and run: "RebuildGraph V M fuel E (SetGraphRoot G ?Id (0, 0)) = Inr G'"
    and w: "W' = W\<lparr>GraphObj := Some G'\<rparr>"
    by (auto simp: OnFindPathAssetSelected_def split: option.splits sum.splits)
  show "OnFilesLoaded W' = OnFilesLoaded W" by (simp add: w)
  from RebuildGraph_makes_nodes [OF run]
  have "TMap_Contains (RefExplorerNodeInfos G') ?Id \<and> Nodes G' \<noteq> None"
    by (simp add: SetGraphRoot_def)
  with g run w show "\<exists>G G'. GraphObj W = Some G \<and> GraphObj W' = Some G'
              \<and> RebuildGraph V M fuel E (SetGraphRoot G ?Id (0, 0)) = Inr G'
              \<and> TMap_Contains (RefExplorerNodeInfos G') ?Id \<and> Nodes G' \<noteq> None"
    by simp
next
  assume a: "IsLoadingAssets E \<and> GraphObj W = Some G
        \<and> OnNodeDoubleClicked V M fuel E W (Some RefExplorerNode) = Inr W'"
  let ?Id = "Identifier RefExplorerNode"
  from a obtain G' where run: "RebuildGraph V M fuel E (SetGraphRoot G ?Id (0, 0)) = Inr G'"
    and w: "W' = W\<lparr>GraphObj := Some G'\<rparr>"
    by (auto simp: OnNodeDoubleClicked_def split: sum.splits)
  show "OnFilesLoaded W' = OnFilesLoaded W" by (simp add: w)
  from RebuildGraph_makes_nodes [OF run]
  have "TMap_Contains (RefExplorerNodeInfos G') ?Id \<and> Nodes G' \<noteq> None"
    by (simp add: SetGraphRoot_def)
  with run w show "\<exists>G'. GraphObj W' = Some G'
              \<and> RebuildGraph V M fuel E (SetGraphRoot G ?Id (0, 0)) = Inr G'
              \<and> TMap_Contains (RefExplorerNodeInfos G') ?Id \<and> Nodes G' \<noteq> None"
    by simp
qed (simp_all add: Handlers_IsLoadingAssets)

theorem C7_rebuild_while_loading_witness:
  "IsLoadingAssets LoadingEngine
   \<and> GraphObj DemoWidget = Some DemoGraph
   \<and> OnFilesLoaded DemoWidget = []
   \<and> SRefExplorer_RebuildGraph RefExplorer ExactMath 2 LoadingEngine DemoWidget
       = Inr (DemoWidget\<lparr>OnFilesLoaded := [(1, BoundOnInitialAssetRegistrySearchComplete)]\<rparr>)
   \<and> FilesLoaded RefExplorer ExactMath 2 DemoEngine
         (DemoWidget\<lparr>OnFilesLoaded := [(1, BoundOnInitialAssetRegistrySearchComplete)]\<rparr>)
       = Inr (DemoWidget\<lparr>OnFilesLoaded := [(1, BoundOnInitialAssetRegistrySearchComplete)],
               GraphObj := Some (BuiltGraph RefExplorer ExactMath DemoEngine DemoGraph
                                   [(PkgId ''A'', 5), (PkgId ''B'', 7)])\<rparr>)
   \<and> (\<exists>W' G'. OnFindPathAssetSelected RefExplorer ExactMath 2 LoadingEngine DemoWidget (Name ''Root'')
                 = Inr W'
         \<and> OnFilesLoaded W' = []
         \<and> GraphObj W' = Some G'
         \<and> map fst (RefExplorerNodeInfos G') = [DemoRoot, PkgId ''A'', PkgId ''B'']
         \<and> map_option (\<lambda>Root. map Identifier (Referencers Root)) (Nodes G')
             = Some [PkgId ''A'', PkgId ''B''])"
proof -
  let ?G' = "BuiltGraph RefExplorer ExactMath DemoEngine DemoGraph [(PkgId ''A'', 5), (PkgId ''B'', 7)]"
  have l: "IsLoadingAssets LoadingEngine" by (simp add: LoadingEngine_def)
  have g: "GraphObj DemoWidget = Some DemoGraph" and f: "OnFilesLoaded DemoWidget = []"
    by (simp_all add: DemoWidget_def)
  have s: "SetGraphRoot DemoGraph (FAssetIdentifier (Name ''Root'') NAME_None NAME_None) (0, 0) = DemoGraph"
    by (simp add: SetGraphRoot_def DemoGraph_def DemoRoot_def PkgId_def)
  have run: "OnFindPathAssetSelected RefExplorer ExactMath 2 LoadingEngine DemoWidget (Name ''Root'')
      = Inr (DemoWidget\<lparr>GraphObj := Some ?G'\<rparr>)"
    by (simp add: OnFindPathAssetSelected_def g s Loading_Rebuild)
  have d: "Deferred DemoWidget = DemoWidget\<lparr>OnFilesLoaded := [(1, BoundOnInitialAssetRegistrySearchComplete)]\<rparr>"
    by (simp add: Deferred_def DemoWidget_def IsBoundToObject_def)
  have k: "map fst (RefExplorerNodeInfos ?G') = [DemoRoot, PkgId ''A'', PkgId ''B'']"
    unfolding BuiltGraph_def
    by (simp add: keys_BuildNodeInfos DemoGraph_def DemoRoot_def PkgId_eq)
  have n: "map_option (\<lambda>Root. map Identifier (Referencers Root)) (Nodes ?G')
             = Some [PkgId ''A'', PkgId ''B'']"
    by (simp add: BuiltGraph_def RootTree_def LeafNode_def upt_rec [of 0] upt_rec [of 1])
  have u: "\<not> IsBoundToObject (OnFilesLoaded DemoWidget) (Self DemoWidget)"
    by (simp add: DemoWidget_def IsBoundToObject_def)
  note inst = C7_rebuild_while_loading [where E = LoadingEngine and V = RefExplorer and M = ExactMath
      and fuel = 2 and W = DemoWidget and Pkg = "Name ''Root''" and W' = "DemoWidget\<lparr>GraphObj := Some ?G'\<rparr>"
      and G = DemoGraph and Loaded = DemoEngine and Rebuilt = ?G']
  from inst l have a: "SRefExplorer_RebuildGraph RefExplorer ExactMath 2 LoadingEngine DemoWidget
       = Inr (Deferred DemoWidget)"
    by blast
  from inst l u g Demo_Rebuild [of RefExplorer ExactMath]
  have b: "FilesLoaded RefExplorer ExactMath 2 DemoEngine (Deferred DemoWidget)
      = Inr ((Deferred DemoWidget)\<lparr>GraphObj := Some ?G'\<rparr>)"
    by blast
  from inst l run have c: "OnFilesLoaded (DemoWidget\<lparr>GraphObj := Some ?G'\<rparr>) = OnFilesLoaded DemoWidget"
    by blast
  from a b c show ?thesis
    using l g f run k n unfolding d by auto
qed

lemma Notifications_eq:
  "Notifications As W = (if As = [] then W else W\<lparr>bDirtyResults := True\<rparr>)"
proof (induction As arbitrary: W)
  case Nil
  show ?case by (simp add: Notifications_def)
next
  case (Cons A As)
  have "Notifications (A # As) W = Notifications As (OnAssetRegistryChanged W A)"
    by (simp add: Notifications_def)
  then show ?case by (simp add: Cons.IH OnAssetRegistryChanged_def)
qed

lemma RefreshClicked_not_loading:
  assumes "\<not> IsLoadingAssets E" "GraphObj W = Some G" "RebuildGraph V M fuel E G = Inr G'"
  shows "\<exists>W'. RefreshClicked V M fuel E W = Inr W' \<and> GraphObj W' = Some G' \<and> \<not> bDirtyResults W'"
  using assms
  by (simp add: RefreshClicked_def SRefExplorer_RebuildGraph_def RebuildGraphObj_def Let_def)

text \<open>
  Claim C8. A notification of the asset registry sets \<^verbatim>\<open>bDirtyResults\<close> and leaves every other
  field as it is, the graph object with its table and nodes among them; so does any
  sequence of notifications. The next refresh, with the registry not loading, replaces the
  graph by the result of \<^verbatim>\<open>RebuildGraph\<close>, which differs from the old graph in the table and
  the nodes only and is the same as a rebuild from an empty graph, and clears the flag.
\<close>

theorem C8_notification_marks_stale:
  "Self (OnAssetRegistryChanged W A) = Self W
   \<and> GraphObj (OnAssetRegistryChanged W A) = GraphObj W
   \<and> AssetRefreshHandle (OnAssetRegistryChanged W A) = AssetRefreshHandle W
   \<and> OnFilesLoaded (OnAssetRegistryChanged W A) = OnFilesLoaded W
   \<and> OnAssetUpdated (OnAssetRegistryChanged W A) = OnAssetUpdated W
   \<and> OnAssetAdded (OnAssetRegistryChanged W A) = OnAssetAdded W
   \<and> OnAssetRemoved (OnAssetRegistryChanged W A) = OnAssetRemoved W
   \<and> bDirtyResults (OnAssetRegistryChanged W A)
   \<and> Notifications (A # As) W = W\<lparr>bDirtyResults := True\<rparr>
   \<and> (\<not> IsLoadingAssets E \<and> GraphObj W = Some G \<and> RebuildGraph V M fuel E G = Inr G' \<longrightarrow>
        G' = G\<lparr>RefExplorerNodeInfos := RefExplorerNodeInfos G', Nodes := Nodes G'\<rparr>
      \<and> RebuildGraph V M fuel E (G\<lparr>RefExplorerNodeInfos := [], Nodes := None\<rparr>) = Inr G'
      \<and> (\<exists>W'. RefreshClicked V M fuel E (Notifications (A # As) W) = Inr W'
             \<and> GraphObj W' = Some G' \<and> \<not> bDirtyResults W'))"
proof (intro conjI impI)
  show "Notifications (A # As) W = W\<lparr>bDirtyResults := True\<rparr>"
    by (simp add: Notifications_eq)
next
  assume a: "\<not> IsLoadingAssets E \<and> GraphObj W = Some G \<and> RebuildGraph V M fuel E G = Inr G'"
  from RebuildGraph_Inr [of V M fuel E G G'] a obtain Links where "G' = BuiltGraph V M E G Links"
    by blast
  then show "G' = G\<lparr>RefExplorerNodeInfos := RefExplorerNodeInfos G', Nodes := Nodes G'\<rparr>"
    by (simp add: BuiltGraph_def)
  show "RebuildGraph V M fuel E (G\<lparr>RefExplorerNodeInfos := [], Nodes := None\<rparr>) = Inr G'"
    using a by (simp add: RebuildGraph_fresh)
  have "GraphObj (Notifications (A # As) W) = Some G"
    using a by (simp add: Notifications_eq)
  from RefreshClicked_not_loading [OF _ this, of E V M fuel G'] a
  show "\<exists>W'. RefreshClicked V M fuel E (Notifications (A # As) W) = Inr W'
             \<and> GraphObj W' = Some G' \<and> \<not> bDirtyResults W'"
    by blast
qed (simp_all add: OnAssetRegistryChanged_def)

theorem C8_notification_marks_stale_witness:
  "\<not> IsLoadingAssets DemoEngine
   \<and> GraphObj DemoWidget = Some DemoGraph
   \<and> Notifications [DefaultAssetData, DefaultAssetData] DemoWidget = DemoWidget\<lparr>bDirtyResults := True\<rparr>
   \<and> (\<exists>G' W'. RebuildGraph RefExplorer ExactMath 2 DemoEngine DemoGraph = Inr G'
         \<and> RefreshClicked RefExplorer ExactMath 2 DemoEngine
              (Notifications [DefaultAssetData, DefaultAssetData] DemoWidget) = Inr W'
         \<and> GraphObj W' = Some G' \<and> \<not> bDirtyResults W')"
proof -
  have a: "\<not> IsLoadingAssets DemoEngine" "GraphObj DemoWidget = Some DemoGraph"
    by (simp_all add: DemoEngine_def DemoWidget_def)
  let ?G' = "BuiltGraph RefExplorer ExactMath DemoEngine DemoGraph [(PkgId ''A'', 5), (PkgId ''B'', 7)]"
  have run: "RebuildGraph RefExplorer ExactMath 2 DemoEngine DemoGraph = Inr ?G'"
    by (rule Demo_Rebuild)
  note inst = C8_notification_marks_stale [where W = DemoWidget and A = DefaultAssetData
      and As = "[DefaultAssetData]" and E = DemoEngine and G = DemoGraph and V = RefExplorer
      and M = ExactMath and fuel = 2 and G' = ?G']
  from inst have n: "Notifications [DefaultAssetData, DefaultAssetData] DemoWidget
      = DemoWidget\<lparr>bDirtyResults := True\<rparr>"
    by blast
  from inst a run
  have "\<exists>W'. RefreshClicked RefExplorer ExactMath 2 DemoEngine
              (Notifications [DefaultAssetData, DefaultAssetData] DemoWidget) = Inr W'
         \<and> GraphObj W' = Some ?G' \<and> \<not> bDirtyResults W'"
    by blast
  with a n run show ?thesis by blast
qed

section \<open>The positions of the children\<close>

lemma round_abs:
  fixes c x x' e a B :: real
  assumes "\<bar>c - x'\<bar> \<le> e * \<bar>x'\<bar>" "\<bar>x' - x\<bar> \<le> a" "\<bar>x'\<bar> \<le> B" "0 \<le> e"
  shows "\<bar>c - x\<bar> \<le> a + e * B"
proof -
  have "e * \<bar>x'\<bar> \<le> e * B" by (rule mult_left_mono [OF assms(3,4)])
  with assms(1,2) show ?thesis by linarith
qed

lemma prod_abs:
  fixes x y :: real
  assumes "\<bar>x' - x\<bar> \<le> ex" "\<bar>y' - y\<bar> \<le> ey" "\<bar>x\<bar> \<le> Bx" "\<bar>y'\<bar> \<le> By"
  shows "\<bar>x' * y' - x * y\<bar> \<le> ex * By + Bx * ey"
proof -
  have "x' * y' - x * y = (x' - x) * y' + x * (y' - y)" by (simp add: algebra_simps)
  then have "\<bar>x' * y' - x * y\<bar> \<le> \<bar>x' - x\<bar> * \<bar>y'\<bar> + \<bar>x\<bar> * \<bar>y' - y\<bar>"
    by (metis abs_mult abs_triangle_ineq)
  moreover have "\<bar>x' - x\<bar> * \<bar>y'\<bar> \<le> ex * By"
    using assms(1,4) by (intro mult_mono) (auto intro: order_trans [OF abs_ge_zero])
  moreover have "\<bar>x\<bar> * \<bar>y' - y\<bar> \<le> Bx * ey"
    using assms(2,3) by (intro mult_mono) (auto intro: order_trans [OF abs_ge_zero])
  ultimately show ?thesis by linarith
qed

lemma sin_lipschitz: "\<bar>sin x - sin y\<bar> \<le> \<bar>x - y\<bar>" for x y :: real
proof -
  have "\<bar>sin x - sin y\<bar> = 2 * \<bar>sin ((x - y) / 2)\<bar> * \<bar>cos ((x + y) / 2)\<bar>"
    by (simp add: sin_diff_sin abs_mult)
  also have "\<dots> \<le> 2 * \<bar>(x - y) / 2\<bar> * 1"
    using abs_sin_x_le_abs_x [of "(x - y) / 2"] by (intro mult_mono) auto
  finally show ?thesis by simp
qed

lemma cos_lipschitz: "\<bar>cos x - cos y\<bar> \<le> \<bar>x - y\<bar>" for x y :: real
proof -
  have "\<bar>cos x - cos y\<bar> = 2 * \<bar>sin ((x + y) / 2)\<bar> * \<bar>sin ((y - x) / 2)\<bar>"
    by (simp add: cos_diff_cos abs_mult)
  also have "\<dots> \<le> 2 * 1 * \<bar>(y - x) / 2\<bar>"
    using abs_sin_x_le_abs_x [of "(y - x) / 2"] by (intro mult_mono) auto
  finally show ?thesis by simp
qed

lemma max_abs_stable:
  fixes a b c d :: real
  assumes "\<bar>a - c\<bar> \<le> e" "\<bar>b - d\<bar> \<le> e"
  shows "\<bar>max \<bar>a\<bar> \<bar>b\<bar> - max \<bar>c\<bar> \<bar>d\<bar>\<bar> \<le> e"
  using assms by (auto simp: max_def abs_if split: if_splits)

lemma chord_pos:
  assumes "0 < n"
  shows "0 < max \<bar>1 - cos (pi / real n)\<bar> \<bar>sin (pi / real n)\<bar>"
proof (cases "n = 1")
  case True
  then show ?thesis by simp
next
  case False
  with assms have "1 < real n" by simp
  then have "pi / real n < pi" "0 < pi / real n"
    by (simp_all add: field_simps)
  then have "0 < sin (pi / real n)" by (simp add: sin_gt_zero)
  then show ?thesis by (simp add: max_def)
qed


lemma AccurateAnglesD:
  assumes "AccurateAngles M e n i"
  shows "\<bar>UE_PI M - pi\<bar> \<le> e * pi"
    and "\<bar>DeltaAngle M n - UE_PI M / real n\<bar> \<le> e * \<bar>UE_PI M / real n\<bar>"
    and "\<bar>LastAngle M n - DeltaAngle M n * (real n - 1)\<bar> \<le> e * \<bar>DeltaAngle M n * (real n - 1)\<bar>"
    and "\<bar>AccumAngle M n i - real i * DeltaAngle M n\<bar> \<le> e * \<bar>real i * DeltaAngle M n\<bar>"
    and "\<bar>FDiv M (LastAngle M n) (FromInt M 2) - LastAngle M n / 2\<bar> \<le> e * \<bar>LastAngle M n / 2\<bar>"
    and "\<bar>FirstAngle M n - (UE_PI M - FDiv M (LastAngle M n) (FromInt M 2))\<bar>
           \<le> e * \<bar>UE_PI M - FDiv M (LastAngle M n) (FromInt M 2)\<bar>"
    and "\<bar>ChildAngle M n i - (AccumAngle M n i + FirstAngle M n)\<bar>
           \<le> e * \<bar>AccumAngle M n i + FirstAngle M n\<bar>"
proof -
  from assms have c: "\<bar>UE_PI M - pi\<bar> \<le> e * pi"
    "FromInt M (of_nat n) = real n"
    "FromInt M (if n = 1 then 0 else of_nat n - 1) = real n - 1"
    "FromInt M (of_nat i) = real i"
    "FromInt M 2 = 2"
    "Rounds e (FDiv M) (/) (UE_PI M) (FromInt M (of_nat n))"
    "Rounds e (FMul M) (*) (DeltaAngle M n) (FromInt M (if n = 1 then 0 else of_nat n - 1))"
    "Rounds e (FMul M) (*) (FromInt M (of_nat i)) (DeltaAngle M n)"
    "Rounds e (FDiv M) (/) (LastAngle M n) (FromInt M 2)"
    "Rounds e (FSub M) (-) (UE_PI M) (FDiv M (LastAngle M n) (FromInt M 2))"
    "Rounds e (FAdd M) (+) (AccumAngle M n i) (FirstAngle M n)"
    unfolding AccurateAngles_def by blast+
  show "\<bar>UE_PI M - pi\<bar> \<le> e * pi" by (rule c(1))
  show "\<bar>DeltaAngle M n - UE_PI M / real n\<bar> \<le> e * \<bar>UE_PI M / real n\<bar>"
    using c(6) unfolding Rounds_def DeltaAngle_def c(2) .
  show "\<bar>LastAngle M n - DeltaAngle M n * (real n - 1)\<bar> \<le> e * \<bar>DeltaAngle M n * (real n - 1)\<bar>"
    using c(7) unfolding Rounds_def LastAngle_def c(3) .
  show "\<bar>AccumAngle M n i - real i * DeltaAngle M n\<bar> \<le> e * \<bar>real i * DeltaAngle M n\<bar>"
    using c(8) unfolding Rounds_def AccumAngle_def c(4) .
  show "\<bar>FDiv M (LastAngle M n) (FromInt M 2) - LastAngle M n / 2\<bar> \<le> e * \<bar>LastAngle M n / 2\<bar>"
    using c(9) unfolding Rounds_def c(5) .
  show "\<bar>FirstAngle M n - (UE_PI M - FDiv M (LastAngle M n) (FromInt M 2))\<bar>
           \<le> e * \<bar>UE_PI M - FDiv M (LastAngle M n) (FromInt M 2)\<bar>"
    using c(10) unfolding Rounds_def FirstAngle_def .
  show "\<bar>ChildAngle M n i - (AccumAngle M n i + FirstAngle M n)\<bar>
           \<le> e * \<bar>AccumAngle M n i + FirstAngle M n\<bar>"
    using c(11) unfolding Rounds_def ChildAngle_def .
qed

lemma delta_accurate:
  assumes acc: "AccurateAngles M e n i" and e: "0 \<le> e" "e \<le> 1 / 100" and n: "0 < n"
  shows "\<bar>DeltaAngle M n - pi / real n\<bar> \<le> 3 * (e * (pi / real n))"
proof -
  define N where "N = real n"
  define p where "p = UE_PI M"
  define d where "d = pi / N"
  have N: "1 \<le> N" using n by (simp add: N_def)
  have d0: "0 < d" using N by (simp add: d_def)
  have pp: "\<bar>p - pi\<bar> \<le> e * pi" using AccurateAnglesD(1) [OF acc] by (simp add: p_def)
  have r: "\<bar>DeltaAngle M n - p / N\<bar> \<le> e * \<bar>p / N\<bar>"
    using AccurateAnglesD(2) [OF acc] by (simp only: p_def N_def)
  have "p / N - d = (p - pi) / N" by (simp add: d_def diff_divide_distrib)
  then have "\<bar>p / N - d\<bar> = \<bar>p - pi\<bar> / N" using N by (simp add: abs_divide)
  also have "\<dots> \<le> e * pi / N" using pp N by (intro divide_right_mono) auto
  finally have a: "\<bar>p / N - d\<bar> \<le> e * d" by (simp add: d_def)
  have "e * d \<le> 1 * d" using e d0 by (intro mult_right_mono) auto
  with a have b: "\<bar>p / N\<bar> \<le> 2 * d" using d0 by linarith
  from round_abs [OF r a b e(1)] have "\<bar>DeltaAngle M n - d\<bar> \<le> e * d + e * (2 * d)" .
  then show ?thesis
    unfolding d_def N_def by (simp add: algebra_simps)
qed

lemma angle_facts:
  assumes n: "0 < n" and i: "i < n"
  defines "d \<equiv> pi / real n"
  shows "0 < d" "d \<le> pi" "0 \<le> d * (real n - 1)" "d * (real n - 1) \<le> pi"
    "0 \<le> real i * d" "real i * d \<le> pi"
proof -
  have N: "1 \<le> real n" using n by simp
  show d0: "0 < d" using N by (simp add: d_def)
  show "d \<le> pi" using N by (simp add: d_def field_simps)
  show "0 \<le> d * (real n - 1)" using d0 N by simp
  have "d * (real n - 1) = pi - d" using N by (simp add: d_def field_simps)
  with d0 show l: "d * (real n - 1) \<le> pi" by simp
  show "0 \<le> real i * d" using d0 by simp
  have "real i \<le> real n - 1" using i by simp
  then have "real i * d \<le> (real n - 1) * d" using d0 by (intro mult_right_mono) auto
  with l show "real i * d \<le> pi" by (simp add: mult.commute)
qed

lemma angle_accurate:
  assumes acc: "AccurateAngles M e n i" and e: "0 \<le> e" "e \<le> 1 / 100" and n: "0 < n" and i: "i < n"
  shows "\<bar>ChildAngle M n i - (real i * (pi / real n) + (pi - pi / real n * (real n - 1) / 2))\<bar> \<le> 51 * e"
proof -
  define d where "d = pi / real n"
  define m where "m = real n - 1"
  define L where "L = d * m"
  define t where "t = real i * d"
  define dh where "dh = DeltaAngle M n"
  define Lh where "Lh = LastAngle M n"
  define th where "th = AccumAngle M n i"
  define hh where "hh = FDiv M (LastAngle M n) (FromInt M 2)"
  define gh where "gh = FirstAngle M n"
  define p where "p = UE_PI M"
  note f = angle_facts [OF n i, folded d_def]
  have m0: "0 \<le> m" using n by (simp add: m_def)
  have L: "0 \<le> L" "L \<le> pi" using f(3,4) by (simp_all add: L_def m_def)
  have t: "0 \<le> t" "t \<le> pi" using f(5,6) by (simp_all add: t_def)
  have pi4: "pi \<le> 4" using pi_less_4 by simp
  have pp: "\<bar>p - pi\<bar> \<le> e * pi" using AccurateAnglesD(1) [OF acc] by (simp add: p_def)
  have "e * pi \<le> e * 4" using e(1) pi4 by (rule mult_left_mono [rotated])
  with pp have pp4: "\<bar>p - pi\<bar> \<le> 4 * e" by simp
  have dd: "\<bar>dh - d\<bar> \<le> 3 * (e * d)"
    using delta_accurate [OF acc e n] by (simp add: dh_def d_def)
  have "\<bar>dh * m - d * m\<bar> = \<bar>dh - d\<bar> * m" using m0 by (simp add: left_diff_distrib [symmetric] abs_mult)
  also have "\<dots> \<le> 3 * (e * d) * m" using dd m0 by (rule mult_right_mono)
  finally have la: "\<bar>dh * m - L\<bar> \<le> 3 * (e * L)" by (simp add: L_def algebra_simps)
  have eL: "e * L \<le> (1 / 100) * L" using e(2) L(1) by (rule mult_right_mono)
  have lb: "\<bar>dh * m\<bar> \<le> 2 * L" using la eL L(1) by linarith
  have lr: "\<bar>Lh - dh * m\<bar> \<le> e * \<bar>dh * m\<bar>"
    using AccurateAnglesD(3) [OF acc] by (simp only: Lh_def dh_def m_def)
  from round_abs [OF lr la lb e(1)] have "\<bar>Lh - L\<bar> \<le> 5 * (e * L)" by (simp add: algebra_simps)
  moreover have "e * L \<le> e * 4" using L(2) pi4 e(1) by (intro mult_left_mono) auto
  ultimately have Lh: "\<bar>Lh - L\<bar> \<le> 20 * e" by linarith
  have "\<bar>real i * dh - real i * d\<bar> = real i * \<bar>dh - d\<bar>" by (simp add: right_diff_distrib [symmetric] abs_mult)
  also have "\<dots> \<le> real i * (3 * (e * d))" using dd by (intro mult_left_mono) auto
  finally have ta: "\<bar>real i * dh - t\<bar> \<le> 3 * (e * t)" by (simp add: t_def algebra_simps)
  have et: "e * t \<le> (1 / 100) * t" using e(2) t(1) by (rule mult_right_mono)
  have tb: "\<bar>real i * dh\<bar> \<le> 2 * t" using ta et t(1) by linarith
  have tr: "\<bar>th - real i * dh\<bar> \<le> e * \<bar>real i * dh\<bar>"
    using AccurateAnglesD(4) [OF acc] by (simp only: th_def dh_def)
  from round_abs [OF tr ta tb e(1)] have "\<bar>th - t\<bar> \<le> 5 * (e * t)" by (simp add: algebra_simps)
  moreover have "e * t \<le> e * 4" using t(2) pi4 e(1) by (intro mult_left_mono) auto
  ultimately have th: "\<bar>th - t\<bar> \<le> 20 * e" by linarith
  have ha: "\<bar>Lh / 2 - L / 2\<bar> \<le> 10 * e" using Lh by (simp add: diff_divide_distrib [symmetric])
  have hb: "\<bar>Lh / 2\<bar> \<le> 3" using ha L pi4 e by linarith
  have hr: "\<bar>hh - Lh / 2\<bar> \<le> e * \<bar>Lh / 2\<bar>"
    using AccurateAnglesD(5) [OF acc] by (simp only: hh_def Lh_def)
  from round_abs [OF hr ha hb e(1)] have hh: "\<bar>hh - L / 2\<bar> \<le> 13 * e" by simp
  have ga: "\<bar>(p - hh) - (pi - L / 2)\<bar> \<le> 17 * e" using pp4 hh by linarith
  have gb: "\<bar>p - hh\<bar> \<le> 5" using ga L pi4 e pi_gt_zero by linarith
  have gr: "\<bar>gh - (p - hh)\<bar> \<le> e * \<bar>p - hh\<bar>"
    using AccurateAnglesD(6) [OF acc] by (simp only: gh_def p_def hh_def)
  from round_abs [OF gr ga gb e(1)] have gh: "\<bar>gh - (pi - L / 2)\<bar> \<le> 22 * e" by simp
  have aa: "\<bar>(th + gh) - (t + (pi - L / 2))\<bar> \<le> 42 * e" using th gh by linarith
  have ab: "\<bar>th + gh\<bar> \<le> 9" using aa t L pi4 e pi_gt_zero by linarith
  have ar: "\<bar>ChildAngle M n i - (th + gh)\<bar> \<le> e * \<bar>th + gh\<bar>"
    using AccurateAnglesD(7) [OF acc] by (simp only: th_def gh_def)
  from round_abs [OF ar aa ab e(1)] have "\<bar>ChildAngle M n i - (t + (pi - L / 2))\<bar> \<le> 51 * e" by simp
  then show ?thesis
    by (simp add: t_def L_def d_def m_def)
qed

lemma AccurateRadiusD:
  assumes "AccurateRadius M e Step n"
  shows "\<bar>FCos M (DeltaAngle M n) - cos (DeltaAngle M n)\<bar> \<le> e"
    and "\<bar>FSin M (DeltaAngle M n) - sin (DeltaAngle M n)\<bar> \<le> e"
    and "\<bar>FSub M (FromInt M 1) (FCos M (DeltaAngle M n)) - (1 - FCos M (DeltaAngle M n))\<bar>
           \<le> e * \<bar>1 - FCos M (DeltaAngle M n)\<bar>"
    and "Chord M n = max \<bar>FSub M (FromInt M 1) (FCos M (DeltaAngle M n))\<bar> \<bar>FSin M (DeltaAngle M n)\<bar>"
    and "\<bar>Radius M Step n - real_of_int (sint Step) / Chord M n\<bar>
           \<le> e * \<bar>real_of_int (sint Step) / Chord M n\<bar>"
proof -
  from assms have c: "FromInt M 1 = 1"
    "FromInt M Step = real_of_int (sint Step)"
    "Approximates e (FCos M) cos (DeltaAngle M n)"
    "Approximates e (FSin M) sin (DeltaAngle M n)"
    "Rounds e (FSub M) (-) (FromInt M 1) (FCos M (DeltaAngle M n))"
    "FAbs M (FSub M (FromInt M 1) (FCos M (DeltaAngle M n)))
           = \<bar>FSub M (FromInt M 1) (FCos M (DeltaAngle M n))\<bar>"
    "FAbs M (FSin M (DeltaAngle M n)) = \<bar>FSin M (DeltaAngle M n)\<bar>"
    "FMax M \<bar>FSub M (FromInt M 1) (FCos M (DeltaAngle M n))\<bar> \<bar>FSin M (DeltaAngle M n)\<bar>
           = max \<bar>FSub M (FromInt M 1) (FCos M (DeltaAngle M n))\<bar> \<bar>FSin M (DeltaAngle M n)\<bar>"
    "Rounds e (FDiv M) (/) (FromInt M Step) (Chord M n)"
    unfolding AccurateRadius_def by blast+
  show "\<bar>FCos M (DeltaAngle M n) - cos (DeltaAngle M n)\<bar> \<le> e"
    using c(3) unfolding Approximates_def .
  show "\<bar>FSin M (DeltaAngle M n) - sin (DeltaAngle M n)\<bar> \<le> e"
    using c(4) unfolding Approximates_def .
  show "\<bar>FSub M (FromInt M 1) (FCos M (DeltaAngle M n)) - (1 - FCos M (DeltaAngle M n))\<bar>
           \<le> e * \<bar>1 - FCos M (DeltaAngle M n)\<bar>"
    using c(5) unfolding Rounds_def c(1) .
  show "Chord M n = max \<bar>FSub M (FromInt M 1) (FCos M (DeltaAngle M n))\<bar> \<bar>FSin M (DeltaAngle M n)\<bar>"
    unfolding Chord_def c(6) c(7) c(8) ..
  show "\<bar>Radius M Step n - real_of_int (sint Step) / Chord M n\<bar>
           \<le> e * \<bar>real_of_int (sint Step) / Chord M n\<bar>"
    using c(9) unfolding Rounds_def Radius_def c(2) .
qed

lemma chord_accurate:
  assumes acc: "AccurateAngles M e n i" and rad: "AccurateRadius M e Step n"
    and e: "0 \<le> e" "e \<le> 1 / 100" and n: "0 < n"
  shows "\<bar>Chord M n - max \<bar>1 - cos (pi / real n)\<bar> \<bar>sin (pi / real n)\<bar>\<bar> \<le> 16 * e"
proof -
  define d where "d = pi / real n"
  define dh where "dh = DeltaAngle M n"
  define ch where "ch = FCos M dh"
  define sh where "sh = FSin M dh"
  define uh where "uh = FSub M (FromInt M 1) ch"
  have d: "0 < d" "d \<le> pi" using angle_facts(1,2) [OF n, of 0] n by (simp_all add: d_def)
  have pi4: "pi \<le> 4" using pi_less_4 by simp
  have "\<bar>dh - d\<bar> \<le> 3 * (e * d)"
    using delta_accurate [OF acc e n] by (simp add: dh_def d_def)
  moreover have "e * d \<le> e * 4" using d(2) pi4 e(1) by (intro mult_left_mono) auto
  ultimately have dd: "\<bar>dh - d\<bar> \<le> 12 * e" by linarith
  have c1: "\<bar>ch - cos dh\<bar> \<le> e" using AccurateRadiusD(1) [OF rad] by (simp add: ch_def dh_def)
  have s1: "\<bar>sh - sin dh\<bar> \<le> e" using AccurateRadiusD(2) [OF rad] by (simp add: sh_def dh_def)
  have c2: "\<bar>ch - cos d\<bar> \<le> 13 * e" using c1 cos_lipschitz [of dh d] dd by linarith
  have s2: "\<bar>sh - sin d\<bar> \<le> 13 * e" using s1 sin_lipschitz [of dh d] dd by linarith
  have ua: "\<bar>(1 - ch) - (1 - cos d)\<bar> \<le> 13 * e" using c2 by simp
  have ub: "\<bar>1 - ch\<bar> \<le> 3" using ua abs_cos_le_one [of d] e by linarith
  have ur: "\<bar>uh - (1 - ch)\<bar> \<le> e * \<bar>1 - ch\<bar>"
    using AccurateRadiusD(3) [OF rad] by (simp only: uh_def ch_def dh_def)
  from round_abs [OF ur ua ub e(1)] have u: "\<bar>uh - (1 - cos d)\<bar> \<le> 16 * e" by simp
  have s3: "\<bar>sh - sin d\<bar> \<le> 16 * e" using s2 e(1) by linarith
  have "Chord M n = max \<bar>uh\<bar> \<bar>sh\<bar>"
    using AccurateRadiusD(4) [OF rad] by (simp only: uh_def sh_def ch_def dh_def)
  with max_abs_stable [OF u s3] show ?thesis by (simp add: d_def)
qed

lemma radius_accurate:
  assumes acc: "AccurateAngles M e n i" and rad: "AccurateRadius M e Step n"
    and e: "0 \<le> e" "e \<le> 1 / 100" and n: "0 < n"
    and S: "0 < sint Step"
    and small: "32 * e * spec_radius (real_of_int (sint Step)) n \<le> real_of_int (sint Step)"
  shows "\<bar>Radius M Step n - spec_radius (real_of_int (sint Step)) n\<bar>
           \<le> 32 * (e * spec_radius (real_of_int (sint Step)) n * spec_radius (real_of_int (sint Step)) n
                      / real_of_int (sint Step))
              + 2 * (e * spec_radius (real_of_int (sint Step)) n)"
    and "0 < spec_radius (real_of_int (sint Step)) n"
proof -
  define s where "s = real_of_int (sint Step)"
  define D where "D = max \<bar>1 - cos (pi / real n)\<bar> \<bar>sin (pi / real n)\<bar>"
  define Dh where "Dh = Chord M n"
  define R where "R = spec_radius s n"
  have s0: "0 < s" using S unfolding s_def by (simp only: of_int_0_less_iff)
  have D0: "0 < D" using chord_pos [OF n] by (simp add: D_def)
  have R: "R = s / D" by (simp add: R_def spec_radius_def spec_deltaAngle_def D_def)
  have R0': "0 < R" unfolding R using s0 D0 by simp
  then show R0: "0 < spec_radius (real_of_int (sint Step)) n"
    unfolding R_def s_def .
  have DD: "\<bar>Dh - D\<bar> \<le> 16 * e"
    using chord_accurate [OF acc rad e n] by (simp add: Dh_def D_def)
  have "32 * e * R \<le> s" using small unfolding R_def s_def .
  then have "32 * e * (s / D) \<le> s" unfolding R .
  then have "32 * e * s \<le> s * D" using D0 by (simp add: field_simps)
  then have e32: "32 * e \<le> D" using s0 by simp
  have Dh: "D / 2 \<le> Dh" using DD e32 by linarith
  have Dh0: "0 < Dh" using Dh D0 by linarith
  have "s / Dh - s / D = s * (D - Dh) / (Dh * D)"
    using D0 Dh0 by (simp add: field_simps)
  then have "\<bar>s / Dh - s / D\<bar> = s * \<bar>D - Dh\<bar> / (Dh * D)"
    using s0 D0 Dh0 by (simp add: abs_mult abs_divide)
  also have "\<dots> \<le> s * (16 * e) / (Dh * D)"
    using DD s0 D0 Dh0 by (intro divide_right_mono mult_left_mono) auto
  also have "\<dots> \<le> s * (16 * e) / (D / 2 * D)"
    using Dh s0 D0 Dh0 e(1) by (intro divide_left_mono mult_right_mono mult_pos_pos mult_nonneg_nonneg) auto
  also have "\<dots> = 32 * (e * R * R / s)"
    using s0 D0 by (simp add: R field_simps)
  finally have qa: "\<bar>s / Dh - R\<bar> \<le> 32 * (e * R * R / s)" by (simp add: R)
  have "s / Dh \<le> s / (D / 2)" using Dh s0 D0 by (intro divide_left_mono mult_pos_pos) auto
  moreover have "s / (D / 2) = 2 * R" by (simp add: R)
  moreover have "0 \<le> s / Dh" using s0 Dh0 by simp
  ultimately have qb: "\<bar>s / Dh\<bar> \<le> 2 * R" by linarith
  have qr: "\<bar>Radius M Step n - s / Dh\<bar> \<le> e * \<bar>s / Dh\<bar>"
    using AccurateRadiusD(5) [OF rad] by (simp only: s_def Dh_def)
  from round_abs [OF qr qa qb e(1)]
  show "\<bar>Radius M Step n - spec_radius (real_of_int (sint Step)) n\<bar>
           \<le> 32 * (e * spec_radius (real_of_int (sint Step)) n * spec_radius (real_of_int (sint Step)) n
                      / real_of_int (sint Step))
              + 2 * (e * spec_radius (real_of_int (sint Step)) n)"
    unfolding R_def s_def by (simp only: algebra_simps)
qed

lemma spec_angle:
  "real i * spec_deltaAngle n + (pi - spec_lastAngle n / 2)
     = real i * (pi / real n) + (pi - pi / real n * (real n - 1) / 2)"
  by (simp add: spec_deltaAngle_def spec_lastAngle_def)

lemma polar_accurate:
  fixes F f :: "real \<Rightarrow> real"
  assumes lip: "\<And>x y. \<bar>f x - f y\<bar> \<le> \<bar>x - y\<bar>" and bnd: "\<And>x. \<bar>f x\<bar> \<le> 1"
    and acc: "AccurateAngles M e n i" and rad: "AccurateRadius M e Step n"
    and e: "0 \<le> e" "e \<le> 1 / 100" and n: "0 < n" and i: "i < n"
    and S: "0 < sint Step"
    and small: "32 * e * spec_radius (real_of_int (sint Step)) n \<le> real_of_int (sint Step)"
    and tr: "\<bar>F (ChildAngle M n i) - f (ChildAngle M n i)\<bar> \<le> e"
    and mr: "\<bar>Ph - Radius M Step n * F (ChildAngle M n i)\<bar>
               \<le> e * \<bar>Radius M Step n * F (ChildAngle M n i)\<bar>"
  defines "R \<equiv> spec_radius (real_of_int (sint Step)) n"
    and "a \<equiv> real i * spec_deltaAngle n + (pi - spec_lastAngle n / 2)"
  shows "\<bar>Ph - R * f a\<bar> \<le> 49 * (e * R * R / real_of_int (sint Step)) + 59 * (e * R)"
    and "\<bar>Ph\<bar> \<le> 4 * R"
proof -
  define s where "s = real_of_int (sint Step)"
  define X1 where "X1 = e * R"
  define X2 where "X2 = e * R * R / s"
  define Rh where "Rh = Radius M Step n"
  define ah where "ah = ChildAngle M n i"
  define sg where "sg = F ah"
  have s0: "0 < s" using S unfolding s_def by (simp only: of_int_0_less_iff)
  have R0: "0 < R" using radius_accurate(2) [OF acc rad e n S small] by (simp only: R_def)
  have RR: "\<bar>Rh - R\<bar> \<le> 32 * X2 + 2 * X1"
    using radius_accurate(1) [OF acc rad e n S small]
    unfolding Rh_def R_def X1_def X2_def s_def .
  have X1: "0 \<le> X1" "X1 \<le> R / 100"
    using e R0 by (simp_all add: X1_def mult_le_cancel_right)
  have "32 * e * R \<le> s" using small unfolding R_def s_def .
  then have "32 * e * R * R \<le> s * R" using R0 by (intro mult_right_mono) auto
  then have X2b: "32 * X2 \<le> R" using s0 by (simp add: X2_def field_simps)
  have X2: "0 \<le> X2" using e R0 s0 by (simp add: X2_def)
  have aa: "\<bar>ah - a\<bar> \<le> 51 * e"
    using angle_accurate [OF acc e n i] by (simp only: ah_def a_def spec_angle)
  have sa: "\<bar>sg - f a\<bar> \<le> 52 * e"
    using tr lip [of ah a] aa unfolding sg_def ah_def by linarith
  have sb: "\<bar>sg\<bar> \<le> 152 / 100" using sa bnd [of a] e by linarith
  have Rabs: "\<bar>R\<bar> \<le> R" using R0 by simp
  from prod_abs [OF RR sa Rabs sb]
  have pa0: "\<bar>Rh * sg - R * f a\<bar> \<le> (32 * X2 + 2 * X1) * (152 / 100) + R * (52 * e)" .
  have pa: "\<bar>Rh * sg - R * f a\<bar> \<le> (4864 / 100) * X2 + (5504 / 100) * X1"
    using pa0 by (simp add: X1_def algebra_simps)
  have "\<bar>R * f a\<bar> \<le> R * 1" unfolding abs_mult using bnd [of a] R0 by (intro mult_mono) auto
  then have Rf: "\<bar>R * f a\<bar> \<le> R" by simp
  have pb: "\<bar>Rh * sg\<bar> \<le> 31 / 10 * R" using pa Rf X1 X2b X2 by linarith
  have pr: "\<bar>Ph - Rh * sg\<bar> \<le> e * \<bar>Rh * sg\<bar>"
    using mr by (simp only: Rh_def sg_def ah_def)
  from round_abs [OF pr pa pb e(1)]
  have "\<bar>Ph - R * f a\<bar> \<le> (4864 / 100) * X2 + (5504 / 100) * X1 + e * (31 / 10 * R)" .
  then have pf: "\<bar>Ph - R * f a\<bar> \<le> (4864 / 100) * X2 + (5814 / 100) * X1"
    by (simp add: X1_def algebra_simps)
  then have "\<bar>Ph - R * f a\<bar> \<le> 49 * X2 + 59 * X1" using X1 X2 by linarith
  then show "\<bar>Ph - R * f a\<bar> \<le> 49 * (e * R * R / real_of_int (sint Step)) + 59 * (e * R)"
    unfolding X1_def X2_def s_def .
  show "\<bar>Ph\<bar> \<le> 4 * R" using pf Rf X1 X2b X2 by linarith
qed

lemma Truncate_near: "\<bar>real_of_int (Truncate r) - r\<bar> < 1"
  unfolding Truncate_def by (cases "0 \<le> r") (simp_all, linarith+)

lemma coord_accurate:
  fixes Ph P y0 Yt Yh e R X2 :: real
  assumes P: "\<bar>Ph - P\<bar> \<le> 49 * X2 + 59 * (e * R)" and Pb: "\<bar>Ph\<bar> \<le> 4 * R"
    and Yt: "\<bar>Yt - y0\<bar> \<le> e * \<bar>y0\<bar>"
    and e: "0 \<le> e" "e \<le> 1 / 100"
  shows "\<bar>Yh - (Yt - Ph)\<bar> \<le> e * \<bar>Yt - Ph\<bar>
           \<Longrightarrow> \<bar>Yh - (y0 - P)\<bar> \<le> e * (3 * \<bar>y0\<bar> + 63 * R) + 49 * X2"
    and "\<bar>Yh - (Yt + Ph)\<bar> \<le> e * \<bar>Yt + Ph\<bar>
           \<Longrightarrow> \<bar>Yh - (y0 + P)\<bar> \<le> e * (3 * \<bar>y0\<bar> + 63 * R) + 49 * X2"
proof -
  have ey: "e * \<bar>y0\<bar> \<le> (1 / 100) * \<bar>y0\<bar>" using e(2) by (intro mult_right_mono) auto
  have ey0: "0 \<le> e * \<bar>y0\<bar>" using e(1) by simp
  have a1: "\<bar>(Yt - Ph) - (y0 - P)\<bar> \<le> e * \<bar>y0\<bar> + 49 * X2 + 59 * (e * R)" using P Yt by linarith
  have a2: "\<bar>(Yt + Ph) - (y0 + P)\<bar> \<le> e * \<bar>y0\<bar> + 49 * X2 + 59 * (e * R)" using P Yt by linarith
  have b1: "\<bar>Yt - Ph\<bar> \<le> 2 * \<bar>y0\<bar> + 4 * R" using Pb Yt ey ey0 by linarith
  have b2: "\<bar>Yt + Ph\<bar> \<le> 2 * \<bar>y0\<bar> + 4 * R" using Pb Yt ey ey0 by linarith
  {
    assume r: "\<bar>Yh - (Yt - Ph)\<bar> \<le> e * \<bar>Yt - Ph\<bar>"
    from round_abs [OF r a1 b1 e(1)]
    show "\<bar>Yh - (y0 - P)\<bar> \<le> e * (3 * \<bar>y0\<bar> + 63 * R) + 49 * X2" by (simp add: algebra_simps)
  }
  {
    assume r: "\<bar>Yh - (Yt + Ph)\<bar> \<le> e * \<bar>Yt + Ph\<bar>"
    from round_abs [OF r a2 b2 e(1)]
    show "\<bar>Yh - (y0 + P)\<bar> \<le> e * (3 * \<bar>y0\<bar> + 63 * R) + 49 * X2" by (simp add: algebra_simps)
  }
qed

lemma PolarY_accurate:
  assumes acc: "AccurateY M e Step Y n i"
    and e: "0 \<le> e" "e \<le> 1 / 100" and n: "0 < n" and i: "i < n"
    and S: "0 < sint Step"
    and small: "32 * e * spec_radius (real_of_int (sint Step)) n \<le> real_of_int (sint Step)"
  shows "\<bar>PolarY M Step Y n i - spec_y (real_of_int (sint Step)) (real_of_int (sint Y)) n i\<bar>
           \<le> LayoutBound e (real_of_int (sint Step)) (real_of_int (sint Y)) n"
proof -
  from acc have c: "AccurateAngles M e n i" "AccurateRadius M e Step n"
    "Approximates e (FSin M) sin (ChildAngle M n i)"
    "Rounds e (FMul M) (*) (Radius M Step n) (FSin M (ChildAngle M n i))"
    "\<bar>FromInt M Y - real_of_int (sint Y)\<bar> \<le> e * \<bar>real_of_int (sint Y)\<bar>"
    "Rounds e (FSub M) (-) (FromInt M Y) (FMul M (Radius M Step n) (FSin M (ChildAngle M n i)))"
    unfolding AccurateY_def by blast+
  have tr: "\<bar>FSin M (ChildAngle M n i) - sin (ChildAngle M n i)\<bar> \<le> e"
    using c(3) unfolding Approximates_def .
  have mr: "\<bar>FMul M (Radius M Step n) (FSin M (ChildAngle M n i))
              - Radius M Step n * FSin M (ChildAngle M n i)\<bar>
               \<le> e * \<bar>Radius M Step n * FSin M (ChildAngle M n i)\<bar>"
    using c(4) unfolding Rounds_def .
  have fr: "\<bar>PolarY M Step Y n i
              - (FromInt M Y - FMul M (Radius M Step n) (FSin M (ChildAngle M n i)))\<bar>
            \<le> e * \<bar>FromInt M Y - FMul M (Radius M Step n) (FSin M (ChildAngle M n i))\<bar>"
    using c(6) unfolding Rounds_def PolarY_def .
  note p = polar_accurate [where f = sin and F = "FSin M"
      and Ph = "FMul M (Radius M Step n) (FSin M (ChildAngle M n i))",
      OF sin_lipschitz abs_sin_le_one c(1,2) e n i S small tr mr]
  have eq: "e * (3 * \<bar>real_of_int (sint Y)\<bar> + 63 * spec_radius (real_of_int (sint Step)) n)
        + 49 * (e * spec_radius (real_of_int (sint Step)) n * spec_radius (real_of_int (sint Step)) n
                  / real_of_int (sint Step))
      = LayoutBound e (real_of_int (sint Step)) (real_of_int (sint Y)) n"
    unfolding LayoutBound_def by (simp only: distrib_left mult.assoc times_divide_eq_right mult.left_commute [of 49 e])
  from coord_accurate(1) [OF p c(5) e fr] show ?thesis
    unfolding spec_y_def eq .
qed

lemma PolarX_accurate:
  assumes acc: "AccurateX M e Step X n i"
    and e: "0 \<le> e" "e \<le> 1 / 100" and n: "0 < n" and i: "i < n"
    and S: "0 < sint Step"
    and small: "32 * e * spec_radius (real_of_int (sint Step)) n \<le> real_of_int (sint Step)"
  shows "\<bar>PolarX M Step X n i - spec_x (real_of_int (sint Step)) (real_of_int (sint X)) n i\<bar>
           \<le> LayoutBound e (real_of_int (sint Step)) (real_of_int (sint X)) n"
proof -
  from acc have c: "AccurateAngles M e n i" "AccurateRadius M e Step n"
    "Approximates e (FCos M) cos (ChildAngle M n i)"
    "Rounds e (FMul M) (*) (Radius M Step n) (FCos M (ChildAngle M n i))"
    "\<bar>FromInt M X - real_of_int (sint X)\<bar> \<le> e * \<bar>real_of_int (sint X)\<bar>"
    "Rounds e (FAdd M) (+) (FromInt M X) (FMul M (Radius M Step n) (FCos M (ChildAngle M n i)))"
    unfolding AccurateX_def by blast+
  have tr: "\<bar>FCos M (ChildAngle M n i) - cos (ChildAngle M n i)\<bar> \<le> e"
    using c(3) unfolding Approximates_def .
  have mr: "\<bar>FMul M (Radius M Step n) (FCos M (ChildAngle M n i))
              - Radius M Step n * FCos M (ChildAngle M n i)\<bar>
               \<le> e * \<bar>Radius M Step n * FCos M (ChildAngle M n i)\<bar>"
    using c(4) unfolding Rounds_def .
  have fr: "\<bar>PolarX M Step X n i
              - (FromInt M X + FMul M (Radius M Step n) (FCos M (ChildAngle M n i)))\<bar>
            \<le> e * \<bar>FromInt M X + FMul M (Radius M Step n) (FCos M (ChildAngle M n i))\<bar>"
    using c(6) unfolding Rounds_def PolarX_def .
  note p = polar_accurate [where f = cos and F = "FCos M"
      and Ph = "FMul M (Radius M Step n) (FCos M (ChildAngle M n i))",
      OF cos_lipschitz abs_cos_le_one c(1,2) e n i S small tr mr]
  have eq: "e * (3 * \<bar>real_of_int (sint X)\<bar> + 63 * spec_radius (real_of_int (sint Step)) n)
        + 49 * (e * spec_radius (real_of_int (sint Step)) n * spec_radius (real_of_int (sint Step)) n
                  / real_of_int (sint Step))
      = LayoutBound e (real_of_int (sint Step)) (real_of_int (sint X)) n"
    unfolding LayoutBound_def by (simp only: distrib_left mult.assoc times_divide_eq_right mult.left_commute [of 49 e])
  from coord_accurate(2) [OF p c(5) e fr] show ?thesis
    unfolding spec_x_def eq .
qed

lemma sint_of_nat_int32:
  assumes "a < 2 ^ 31"
  shows "sint (of_nat a :: int32) = int a"
proof -
  have "(of_nat a :: int32) = word_of_int (int a)" by simp
  then have "sint (of_nat a :: int32) = signed_take_bit 31 (int a)"
    by (simp only: sint_sbintrunc') simp
  also have "\<dots> = int a"
    using assms by (intro signed_take_bit_int_eq_self) auto
  finally show ?thesis .
qed

lemma FMath_Min_of_nat:
  assumes "a < 2 ^ 31" "b < 2 ^ 31"
  shows "FMath_Min (of_nat a) (of_nat b) = of_nat (min a b)"
  unfolding FMath_Min_def sint_of_nat_int32 [OF assms(1)] sint_of_nat_int32 [OF assms(2)]
  by (simp add: min_def)

lemma ChildLoc_X_RefExplorer:
  assumes "i < n" "n < 2 ^ 31"
  shows "fst (ChildLoc RefExplorer M (px, py) n i) = px - (of_nat (min i (n - 1 - i)) + 1) * 256"
proof -
  have "(of_nat n :: int32) - of_nat i - 1 = of_nat (n - 1 - i)"
    using assms(1) by (simp add: of_nat_diff)
  moreover have "i < 2 ^ 31" "n - 1 - i < 2 ^ 31" using assms by simp_all
  ultimately show ?thesis
    by (simp add: ChildLoc_def WidthStep_def FMath_Min_of_nat)
qed

lemma ChildLoc_Y_same:
  "snd (ChildLoc RefExplorer M (px, py) n i) = snd (ChildLoc ReferenceExplorer M (px, py) n i)"
  by (simp add: ChildLoc_def HeightStep_def NodeRadius_def)

lemma ChildLoc_Y_accurate:
  assumes acc: "AccurateY M e 400 py n i"
    and e: "0 \<le> e" "e \<le> 1 / 100" and i: "i < n"
    and small: "32 * e * spec_radius 400 n \<le> 400"
  shows "\<bar>real_of_int (sint (snd (ChildLoc V M (px, py) n i))) - spec_y 400 (real_of_int (sint py)) n i\<bar>
           < 1 + LayoutBound e 400 (real_of_int (sint py)) n"
proof -
  have n: "0 < n" using i by simp
  have S: "0 < sint (400 :: int32)" and s: "real_of_int (sint (400 :: int32)) = 400" by simp_all
  have small': "32 * e * spec_radius (real_of_int (sint (400 :: int32))) n \<le> real_of_int (sint (400 :: int32))"
    unfolding s by (rule small)
  from PolarY_accurate [OF acc e n i S small']
  have b: "\<bar>PolarY M 400 py n i - spec_y 400 (real_of_int (sint py)) n i\<bar>
           \<le> LayoutBound e 400 (real_of_int (sint py)) n"
    unfolding s .
  from acc have t: "sint (ToInt M (PolarY M 400 py n i)) = Truncate (PolarY M 400 py n i)"
    unfolding AccurateY_def by blast
  have y: "snd (ChildLoc V M (px, py) n i) = ToInt M (PolarY M 400 py n i)"
    by (cases V) (simp_all add: ChildLoc_def HeightStep_def NodeRadius_def)
  from Truncate_near [of "PolarY M 400 py n i"] b show ?thesis
    unfolding y t by linarith
qed

lemma ChildLoc_X_accurate:
  assumes acc: "AccurateX M e 400 px n i"
    and e: "0 \<le> e" "e \<le> 1 / 100" and i: "i < n"
    and small: "32 * e * spec_radius 400 n \<le> 400"
  shows "\<bar>real_of_int (sint (fst (ChildLoc ReferenceExplorer M (px, py) n i)))
            - spec_x 400 (real_of_int (sint px)) n i\<bar>
           < 1 + LayoutBound e 400 (real_of_int (sint px)) n"
proof -
  have n: "0 < n" using i by simp
  have S: "0 < sint (400 :: int32)" and s: "real_of_int (sint (400 :: int32)) = 400" by simp_all
  have small': "32 * e * spec_radius (real_of_int (sint (400 :: int32))) n \<le> real_of_int (sint (400 :: int32))"
    unfolding s by (rule small)
  from PolarX_accurate [OF acc e n i S small']
  have b: "\<bar>PolarX M 400 px n i - spec_x 400 (real_of_int (sint px)) n i\<bar>
           \<le> LayoutBound e 400 (real_of_int (sint px)) n"
    unfolding s .
  from acc have t: "sint (ToInt M (PolarX M 400 px n i)) = Truncate (PolarX M 400 px n i)"
    unfolding AccurateX_def by blast
  have x: "fst (ChildLoc ReferenceExplorer M (px, py) n i) = ToInt M (PolarX M 400 px n i)"
    by (simp add: ChildLoc_def NodeRadius_def)
  from Truncate_near [of "PolarX M 400 px n i"] b show ?thesis
    unfolding x t by linarith
qed

lemma Rounded_Y:
  "AccurateY RoundedMath (1 / 2 ^ 24) 400 (- 400) 1 0"
  "PolarY RoundedMath 400 (- 400) 1 0 = - 400 + 200 / 2 ^ 25"
  by (simp_all add: AccurateY_def AccurateAngles_def AccurateRadius_def Rounds_def Approximates_def
      RoundedMath_def ExactMath_def DeltaAngle_def LastAngle_def Chord_def Radius_def AccumAngle_def
      FirstAngle_def ChildAngle_def PolarY_def Truncate_def)

lemma Rounded_X:
  "AccurateX RoundedMath (1 / 2 ^ 24) 400 0 1 0"
  "PolarX RoundedMath 400 0 1 0 = - 200"
  by (simp_all add: AccurateX_def AccurateAngles_def AccurateRadius_def Rounds_def Approximates_def
      RoundedMath_def ExactMath_def DeltaAngle_def LastAngle_def Chord_def Radius_def AccumAngle_def
      FirstAngle_def ChildAngle_def PolarX_def Truncate_def)

lemma one_child_loc:
  "ChildLoc RefExplorer ExactMath (0, 0) (Suc 0) 0 = (- 256, 0)"
  "ChildLoc ReferenceExplorer ExactMath (0, 0) (Suc 0) 0 = (- 200, 0)"
  by (simp_all add: ChildLoc_def PolarX_def PolarY_def Radius_def Chord_def ChildAngle_def FirstAngle_def
      AccumAngle_def LastAngle_def DeltaAngle_def ExactMath_def WidthStep_def HeightStep_def
      NodeRadius_def FMath_Min_def Truncate_def)

lemma one_child_tree:
  "RecursivelyCreateNodes V ExactMath 2 OneChildInfos DemoRoot (0, 0)
     = Inr (RootTree V ExactMath DemoRoot (0, 0) [(PkgId ''A'', LinkEndActive)])"
  unfolding numeral_2_eq_2
  by (rule RecursivelyCreateNodes_root(1)
        [where N = "(NewNodeInfo DemoRoot)\<lparr>Children := [(PkgId ''A'', LinkEndActive)]\<rparr>"])
     (simp_all add: OneChildInfos_def TMap_Find_def DemoRoot_def PkgId_eq NewNodeInfo_def)

lemma spec_one_child: "spec_x FixedStep 0 1 0 = - FixedStep / 2"
  by (simp add: spec_x_def spec_radius_def spec_lastAngle_def spec_deltaAngle_def)

lemma spec_two_children: "spec_x FixedStep 0 2 0 = - FixedStep * (sqrt 2 / 2)"
proof -
  have a: "pi - pi / 2 / 2 = pi - pi / 4" by simp
  have "cos (pi - pi / 4) = - (sqrt 2 / 2)"
    unfolding cos_pi_minus cos_45 ..
  then show ?thesis
    by (simp add: spec_x_def spec_radius_def spec_lastAngle_def spec_deltaAngle_def a)
qed

lemma no_FixedStep: "\<not> (\<exists>FixedStep. spec_x FixedStep 0 1 0 = - 256 \<and> spec_x FixedStep 0 2 0 = - 256)"
proof
  assume "\<exists>FixedStep. spec_x FixedStep 0 1 0 = - 256 \<and> spec_x FixedStep 0 2 0 = - 256"
  then obtain F where a: "- F / 2 = - 256" and b: "- F * (sqrt 2 / 2) = - 256"
    unfolding spec_one_child spec_two_children by blast
  from a have "F = 512" by simp
  with b have "sqrt 2 = 1" by simp
  then show False by simp
qed

text \<open>
  Claim C1, as stated, fails for \<^verbatim>\<open>UEdGraph_RefExplorer\<close>, whose \<open>x\<close> is computed in \<^verbatim>\<open>int32\<close>
  alone. With one child and the parent at the origin the child is put at \<open>x = -256\<close>, one
  \<^verbatim>\<open>WidthStep\<close> to the left, while the rule of the claim with the step of the code gives
  \<open>x = 0 + 200 * cos \<pi> = -200\<close>, which is 56 away. The first of two children is put at
  \<open>x = -256\<close> as well, and the rule of the claim gives these two positions for no
  \<open>FixedStep\<close>.
\<close>

theorem C1_counterexample:
  "sint (fst (ChildLoc RefExplorer ExactMath (0, 0) 1 0)) = - 256
   \<and> spec_x 400 0 1 0 = - 200
   \<and> real_of_int (sint (fst (ChildLoc RefExplorer ExactMath (0, 0) 1 0))) \<noteq> spec_x 400 0 1 0
   \<and> \<bar>real_of_int (sint (fst (ChildLoc RefExplorer ExactMath (0, 0) 1 0))) - spec_x 400 0 1 0\<bar> = 56
   \<and> sint (fst (ChildLoc RefExplorer ExactMath (0, 0) 2 0)) = - 256
   \<and> \<not> (\<exists>FixedStep. spec_x FixedStep 0 1 0 = - 256 \<and> spec_x FixedStep 0 2 0 = - 256)
   \<and> map_sum id (\<lambda>Node. map (\<lambda>R. sint (fst (NodePos R))) (Referencers Node))
        (RecursivelyCreateNodes RefExplorer ExactMath 2 OneChildInfos DemoRoot (0, 0))
      = Inr [- 256]"
proof -
  have x: "fst (ChildLoc RefExplorer ExactMath (0, 0) 1 0) = - 256"
    using ChildLoc_X_RefExplorer [of 0 1 ExactMath 0 0] by simp
  have x2: "fst (ChildLoc RefExplorer ExactMath (0, 0) 2 0) = - 256"
    using ChildLoc_X_RefExplorer [of 0 2 ExactMath 0 0] by simp
  have s: "spec_x 400 0 1 0 = - 200" using spec_one_child [of 400] by simp
  have m: "map_sum id (\<lambda>Node. map (\<lambda>R. sint (fst (NodePos R))) (Referencers Node))
        (RecursivelyCreateNodes RefExplorer ExactMath 2 OneChildInfos DemoRoot (0, 0))
      = Inr [- 256]"
    unfolding one_child_tree by (simp add: RootTree_def LeafNode_def one_child_loc)
  show ?thesis
    unfolding x x2 s using m no_FixedStep by simp
qed

text \<open>
  Claim C1, amended. The node made for child \<open>i\<close> of a parent with \<open>n\<close> children is at
  \<^verbatim>\<open>ChildLoc\<close>, whatever the floating-point operations are. \<^verbatim>\<open>UEdGraph_RefExplorer\<close> puts it at
  \<open>x = parentX - (min(i, n - 1 - i) + 1) * 256\<close>, computed in \<^verbatim>\<open>int32\<close> (it wraps around), and
  both implementations compute the same \<open>y\<close>. The \<open>y\<close> of both and the \<open>x\<close> of
  \<^verbatim>\<open>UEdGraph_ReferenceExplorer\<close> are the rule of the claim with \<open>FixedStep = 400\<close>, computed in
  floating point and with the fraction dropped: when every operation of the computation
  is accurate to \<open>eps\<close>, the coordinate is less than \<open>1 + LayoutBound\<close> away from the value of
  the rule in real numbers; it need not be that value cut to an integer.
\<close>

theorem C1_child_positions:
  "(RecursivelyCreateNodes V M fuel Infos InAssetId InNodeLoc = Inr Node
      \<and> TMap_Find Infos InAssetId = Some Info \<and> i < length (Children Info) \<longrightarrow>
        length (Referencers Node) = length (Children Info)
      \<and> Identifier (Referencers Node ! i) = fst (Children Info ! i)
      \<and> NodePos (Referencers Node ! i) = ChildLoc V M InNodeLoc (length (Children Info)) i)
   \<and> (i < n \<and> n < 2 ^ 31 \<longrightarrow>
        fst (ChildLoc RefExplorer M (px, py) n i) = px - (of_nat (min i (n - 1 - i)) + 1) * 256)
   \<and> snd (ChildLoc RefExplorer M (px, py) n i) = snd (ChildLoc ReferenceExplorer M (px, py) n i)
   \<and> (0 \<le> eps \<and> eps \<le> 1 / 100 \<and> i < n \<and> 32 * eps * spec_radius 400 n \<le> 400 \<longrightarrow>
        (AccurateY F eps 400 py n i \<longrightarrow>
           \<bar>real_of_int (sint (snd (ChildLoc V F (px, py) n i))) - spec_y 400 (real_of_int (sint py)) n i\<bar>
             < 1 + LayoutBound eps 400 (real_of_int (sint py)) n)
      \<and> (AccurateX F eps 400 px n i \<longrightarrow>
           \<bar>real_of_int (sint (fst (ChildLoc ReferenceExplorer F (px, py) n i)))
              - spec_x 400 (real_of_int (sint px)) n i\<bar>
             < 1 + LayoutBound eps 400 (real_of_int (sint px)) n))"
proof (intro conjI impI)
  assume a: "RecursivelyCreateNodes V M fuel Infos InAssetId InNodeLoc = Inr Node
      \<and> TMap_Find Infos InAssetId = Some Info \<and> i < length (Children Info)"
  from RecursivelyCreateNodes_Inr [of V M fuel Infos InAssetId InNodeLoc Node] a
  obtain f where
    c: "CreateChildNodes V M f Infos InNodeLoc (Children Info) 0 = Inr (Referencers Node)"
    by auto
  from CreateChildNodes_Inr [OF c] a
  show "length (Referencers Node) = length (Children Info)"
    and "Identifier (Referencers Node ! i) = fst (Children Info ! i)"
    and "NodePos (Referencers Node ! i) = ChildLoc V M InNodeLoc (length (Children Info)) i"
    by simp_all
next
  assume "i < n \<and> n < 2 ^ 31"
  then show "fst (ChildLoc RefExplorer M (px, py) n i) = px - (of_nat (min i (n - 1 - i)) + 1) * 256"
    by (simp add: ChildLoc_X_RefExplorer)
next
  show "snd (ChildLoc RefExplorer M (px, py) n i) = snd (ChildLoc ReferenceExplorer M (px, py) n i)"
    by (rule ChildLoc_Y_same)
next
  assume h: "0 \<le> eps \<and> eps \<le> 1 / 100 \<and> i < n \<and> 32 * eps * spec_radius 400 n \<le> 400"
    and acc: "AccurateY F eps 400 py n i"
  from h have e: "0 \<le> eps" "eps \<le> 1 / 100" and i: "i < n"
    and small: "32 * eps * spec_radius 400 n \<le> 400" by simp_all
  show "\<bar>real_of_int (sint (snd (ChildLoc V F (px, py) n i))) - spec_y 400 (real_of_int (sint py)) n i\<bar>
             < 1 + LayoutBound eps 400 (real_of_int (sint py)) n"
    by (rule ChildLoc_Y_accurate [OF acc e i small])
next
  assume h: "0 \<le> eps \<and> eps \<le> 1 / 100 \<and> i < n \<and> 32 * eps * spec_radius 400 n \<le> 400"
    and acc: "AccurateX F eps 400 px n i"
  from h have e: "0 \<le> eps" "eps \<le> 1 / 100" and i: "i < n"
    and small: "32 * eps * spec_radius 400 n \<le> 400" by simp_all
  show "\<bar>real_of_int (sint (fst (ChildLoc ReferenceExplorer F (px, py) n i)))
              - spec_x 400 (real_of_int (sint px)) n i\<bar>
             < 1 + LayoutBound eps 400 (real_of_int (sint px)) n"
    by (rule ChildLoc_X_accurate [OF acc e i small])
qed

lemma Rounded_values:
  "sint (snd (ChildLoc V RoundedMath (0, - 400) 1 0)) = - 399"
  "spec_y 400 (- 400) 1 0 = - 400"
  "spec_radius 400 1 = 200"
  "LayoutBound (1 / 2 ^ 24) 400 (- 400) 1 = 18700 / 2 ^ 24"
proof -
  have y: "snd (ChildLoc V RoundedMath (0, - 400) 1 0) = ToInt RoundedMath (PolarY RoundedMath 400 (- 400) 1 0)"
    by (cases V) (simp_all add: ChildLoc_def HeightStep_def NodeRadius_def)
  have c: "\<lceil>- 400 + 200 / 2 ^ 25 :: real\<rceil> = - 399"
    by (rule ceiling_unique) simp_all
  show "sint (snd (ChildLoc V RoundedMath (0, - 400) 1 0)) = - 399"
    unfolding y Rounded_Y(2) by (simp add: RoundedMath_def ExactMath_def Truncate_def c)
  show r: "spec_radius 400 1 = 200"
    by (simp add: spec_radius_def spec_deltaAngle_def)
  show "spec_y 400 (- 400) 1 0 = - 400"
    unfolding spec_y_def r by (simp add: spec_lastAngle_def spec_deltaAngle_def)
  show "LayoutBound (1 / 2 ^ 24) 400 (- 400) 1 = 18700 / 2 ^ 24"
    unfolding LayoutBound_def r by simp
qed

theorem C1_child_positions_witness:
  "TMap_Find OneChildInfos DemoRoot
     = Some ((NewNodeInfo DemoRoot)\<lparr>Children := [(PkgId ''A'', LinkEndActive)]\<rparr>)
   \<and> (\<exists>Node. RecursivelyCreateNodes RefExplorer ExactMath 2 OneChildInfos DemoRoot (0, 0) = Inr Node
         \<and> NodePos (Referencers Node ! 0) = (- 256, 0))
   \<and> (\<exists>Node. RecursivelyCreateNodes ReferenceExplorer ExactMath 2 OneChildInfos DemoRoot (0, 0) = Inr Node
         \<and> NodePos (Referencers Node ! 0) = (- 200, 0))
   \<and> sint (fst (ChildLoc RefExplorer RoundedMath (0, 0) 3 1)) = - 512
   \<and> sint (fst (ChildLoc RefExplorer RoundedMath (- 2147483648, 0) 1 0)) = 2147483392
   \<and> AccurateY RoundedMath (1 / 2 ^ 24) 400 (- 400) 1 0
   \<and> sint (snd (ChildLoc RefExplorer RoundedMath (0, - 400) 1 0)) = - 399
   \<and> spec_y 400 (- 400) 1 0 = - 400
   \<and> \<bar>real_of_int (- 399) - (- 400 :: real)\<bar> < 1 + 18700 / 2 ^ 24
   \<and> AccurateX RoundedMath (1 / 2 ^ 24) 400 0 1 0
   \<and> sint (fst (ChildLoc ReferenceExplorer RoundedMath (0, - 400) 1 0)) = - 200
   \<and> spec_x 400 0 1 0 = - 200
   \<and> \<bar>real_of_int (sint (fst (ChildLoc ReferenceExplorer RoundedMath (0, - 400) 1 0)))
         - spec_x 400 (real_of_int (sint (0 :: int32))) 1 0\<bar>
       < 1 + LayoutBound (1 / 2 ^ 24) 400 (real_of_int (sint (0 :: int32))) 1"
proof -
  let ?Info = "(NewNodeInfo DemoRoot)\<lparr>Children := [(PkgId ''A'', LinkEndActive)]\<rparr>"
  have f: "TMap_Find OneChildInfos DemoRoot = Some ?Info"
    by (simp add: OneChildInfos_def TMap_Find_def)
  have i: "0 < length (Children ?Info)" by simp
  have n: "length (Children ?Info) = Suc 0" by simp
  have p: "NodePos (Referencers (RootTree V ExactMath DemoRoot (0, 0)
              [(PkgId ''A'', LinkEndActive)]) ! 0)
      = ChildLoc V ExactMath (0, 0) (Suc 0) 0" for V
    using C1_child_positions [where V = V and M = ExactMath and fuel = 2
        and Infos = OneChildInfos and InAssetId = DemoRoot and InNodeLoc = "(0, 0)"
        and Node = "RootTree V ExactMath DemoRoot (0, 0) [(PkgId ''A'', LinkEndActive)]"
        and Info = ?Info and i = 0] one_child_tree [of V] f i
    unfolding n by blast
  have t: "(\<exists>Node. RecursivelyCreateNodes RefExplorer ExactMath 2 OneChildInfos DemoRoot (0, 0) = Inr Node
         \<and> NodePos (Referencers Node ! 0) = (- 256, 0))
     \<and> (\<exists>Node. RecursivelyCreateNodes ReferenceExplorer ExactMath 2 OneChildInfos DemoRoot (0, 0) = Inr Node
         \<and> NodePos (Referencers Node ! 0) = (- 200, 0))"
    using one_child_tree p [of RefExplorer] p [of ReferenceExplorer]
    unfolding one_child_loc by blast
  have x3: "fst (ChildLoc RefExplorer RoundedMath (0, 0) 3 1) = 0 - (of_nat (min 1 (3 - 1 - 1)) + 1) * 256"
    using C1_child_positions [where M = RoundedMath and i = 1 and n = 3 and px = 0 and py = 0]
    by simp
  have xw: "fst (ChildLoc RefExplorer RoundedMath (- 2147483648, 0) 1 0)
        = - 2147483648 - (of_nat (min 0 (1 - 1 - 0)) + 1) * 256"
    using C1_child_positions [where M = RoundedMath and i = 0 and n = 1 and px = "- 2147483648" and py = 0]
    by simp
  have y: "\<bar>real_of_int (sint (snd (ChildLoc RefExplorer RoundedMath (0, - 400) 1 0)))
             - spec_y 400 (real_of_int (sint (- 400 :: int32))) 1 0\<bar>
           < 1 + LayoutBound (1 / 2 ^ 24) 400 (real_of_int (sint (- 400 :: int32))) 1"
  proof -
    have h: "0 \<le> (1 / 2 ^ 24 :: real) \<and> 1 / 2 ^ 24 \<le> (1 / 100 :: real) \<and> (0 :: nat) < 1
        \<and> 32 * (1 / 2 ^ 24) * spec_radius 400 1 \<le> 400"
      unfolding Rounded_values(3) by simp
    from C1_child_positions [where F = RoundedMath and V = RefExplorer and eps = "1 / 2 ^ 24"
        and i = 0 and n = 1 and px = 0 and py = "- 400"] h Rounded_Y(1)
    show ?thesis by blast
  qed
  have s: "real_of_int (sint (- 400 :: int32)) = - 400" by simp
  from y have y': "\<bar>real_of_int (- 399) - (- 400 :: real)\<bar> < 1 + 18700 / 2 ^ 24"
    unfolding s Rounded_values by simp
  have x3': "sint (fst (ChildLoc RefExplorer RoundedMath (0, 0) 3 1)) = - 512"
    unfolding x3 by simp
  have xw': "sint (fst (ChildLoc RefExplorer RoundedMath (- 2147483648, 0) 1 0)) = 2147483392"
    unfolding xw by simp
  have h: "0 \<le> (1 / 2 ^ 24 :: real) \<and> 1 / 2 ^ 24 \<le> (1 / 100 :: real) \<and> (0 :: nat) < 1
      \<and> 32 * (1 / 2 ^ 24) * spec_radius 400 1 \<le> 400"
    unfolding Rounded_values(3) by simp
  from C1_child_positions [where F = RoundedMath and eps = "1 / 2 ^ 24"
      and i = 0 and n = 1 and px = 0 and py = "- 400"] h Rounded_X(1)
  have xa: "\<bar>real_of_int (sint (fst (ChildLoc ReferenceExplorer RoundedMath (0, - 400) 1 0)))
         - spec_x 400 (real_of_int (sint (0 :: int32))) 1 0\<bar>
       < 1 + LayoutBound (1 / 2 ^ 24) 400 (real_of_int (sint (0 :: int32))) 1"
    by blast
  have xv: "sint (fst (ChildLoc ReferenceExplorer RoundedMath (0, - 400) 1 0)) = - 200"
  proof -
    have "fst (ChildLoc ReferenceExplorer RoundedMath (0, - 400) 1 0)
        = ToInt RoundedMath (PolarX RoundedMath 400 0 1 0)"
      by (simp add: ChildLoc_def NodeRadius_def)
    then show ?thesis
      unfolding Rounded_X(2) by (simp add: RoundedMath_def ExactMath_def Truncate_def)
  qed
  have sx: "spec_x 400 0 1 0 = - 200" using spec_one_child [of 400] by simp
  from f t x3' xw' Rounded_Y(1) Rounded_values(1) [of RefExplorer] Rounded_values(2) y'
    Rounded_X(1) xv sx xa
  show ?thesis by blast
qed

end
